theory Spec2Isabelle
  imports Main "HOL-Library.Sublist" "HOL-Library.Char_ord" "HOL-Library.List_Lexorder"
begin

unbundle bit_operations_syntax

section \<open>The healthchecks middleware (server/lib/healthchecks.js)\<close>

text \<open>
  A shallow embedding of \<^verbatim>\<open>healthchecks.js\<close>. JavaScript strings are \<^typ>\<open>string\<close>
  (a character stands for one code unit below 256, compared by its code), \<^verbatim>\<open>null\<close> and
  \<^verbatim>\<open>undefined\<close> are \<^const>\<open>None\<close>, a thrown exception is \<^const>\<open>Inl\<close> of a sum, a
  promise is the value it settles to. Functions of Node's own modules (\<^verbatim>\<open>url\<close>,
  \<^verbatim>\<open>pretty-hrtime\<close>) are parameters, collected in the record \<open>externals\<close>.
\<close>

subsection \<open>JavaScript values\<close>

text \<open>An error object: its message and its \<^verbatim>\<open>code\<close> property (undefined on a plain
  \<^verbatim>\<open>new Error(..)\<close> and on the \<^verbatim>\<open>TypeError\<close>s, \<^verbatim>\<open>URIError\<close>s and
  \<^verbatim>\<open>AssertionError\<close>s modelled here).\<close>

datatype js_error =
    Error string "string option"
  | TypeError string
  | URIError string
  | AssertionError string

fun error_code :: "js_error \<Rightarrow> string option" where
  "error_code (Error m c) = c"
| "error_code (TypeError m) = None"
| "error_code (URIError m) = None"
| "error_code (AssertionError m) = None"

text \<open>What a call that returns a promise does: throw before returning, or return a
  promise that is rejected, or one that is resolved.\<close>

datatype 'a completion = Threw js_error | Rejected js_error | Resolved 'a

text \<open>\<^verbatim>\<open>s.indexOf(t)\<close>: the first position at which \<open>t\<close> occurs in \<open>s\<close>, or -1.\<close>

fun indexOfFrom :: "string \<Rightarrow> string \<Rightarrow> nat \<Rightarrow> int" where
  "indexOfFrom [] t i = (if t = [] then int i else - 1)"
| "indexOfFrom (c # cs) t i = (if prefix t (c # cs) then int i else indexOfFrom cs t (Suc i))"

definition indexOf :: "string \<Rightarrow> string \<Rightarrow> int" where
  "indexOf s t = indexOfFrom s t 0"

text \<open>\<^verbatim>\<open>s.endsWith(t)\<close>.\<close>

definition endsWith :: "string \<Rightarrow> string \<Rightarrow> bool" where
  "endsWith s t = (length t \<le> length s \<and> drop (length s - length t) s = t)"

text \<open>Truthiness of a number and of a string-or-undefined value.\<close>

definition truthy_num :: "int \<Rightarrow> bool" where
  "truthy_num n = (n \<noteq> 0)"

fun truthy_str :: "string option \<Rightarrow> bool" where
  "truthy_str None = False"
| "truthy_str (Some s) = (s \<noteq> [])"

subsection \<open>Constants\<close>

definition REDIRECT_STATUSES :: "int list" where
  "REDIRECT_STATUSES = [301, 302, 303, 307]"

definition MAX_REDIRECT_COUNT :: nat where
  "MAX_REDIRECT_COUNT = 10"

subsection \<open>Parsed URLs and the external functions\<close>

text \<open>The fields of a parsed URL object that the program reads; each is \<^verbatim>\<open>null\<close>
  when the URL has no such part.\<close>

record parsed_url =
  u_protocol :: "string option"
  u_hostname :: "string option"
  u_host     :: "string option"
  u_port     :: "string option"
  u_path     :: "string option"
  u_pathname :: "string option"

text \<open>\<^verbatim>\<open>URL.parse\<close> throws on some texts (Node documents a URIError when the auth part
  of the URL cannot be decoded): \<open>URL_parse_error\<close> is the exception it throws on a text,
  if it throws, and \<open>URL_parse\<close> its value otherwise. The exception matters where the
  text of the checks file is parsed, in \<^verbatim>\<open>readChecks\<close>.\<close>

record externals =
  URL_parse       :: "string \<Rightarrow> parsed_url"
  URL_parse_error :: "string \<Rightarrow> js_error option"
  URL_resolve     :: "string \<Rightarrow> string \<Rightarrow> string"
  hrTime          :: "nat \<times> nat \<Rightarrow> string"

subsection \<open>Outcome\<close>

record outcome_args =
  a_url        :: string
  a_elapsed    :: "nat \<times> nat"
  a_expected   :: "string list"
  a_error      :: "js_error option"
  a_statusCode :: "int option"
  a_body       :: "string option"

text \<open>The properties of an Outcome object; \<^const>\<open>None\<close> is a property that was never
  assigned.\<close>

record outcome =
  o_url             :: string
  o_elapsed         :: string
  o_expectedContent :: "string list"
  o_reason          :: "string option"
  o_timeout         :: "bool option"
  o_error           :: "js_error option"
  o_statusCode      :: "int option"
  o_body            :: "string option"

text \<open>\<^verbatim>\<open>expected.every(text => ~args.body.indexOf(text))\<close>: the callback reads
  \<^verbatim>\<open>args.body.indexOf\<close>, which throws a TypeError when the body is undefined; with
  no expected text the callback never runs.\<close>

definition allMatching :: "string option \<Rightarrow> string list \<Rightarrow> js_error + bool" where
  "allMatching body expected =
     (case body of
        Some b \<Rightarrow> Inr (list_all (\<lambda>text. truthy_num (NOT (indexOf b text))) expected)
      | None \<Rightarrow> (if expected = [] then Inr True
                 else Inl (TypeError ''Cannot read property indexOf of undefined'')))"

text \<open>The constructor. \<^verbatim>\<open>undefined < 200\<close> and \<^verbatim>\<open>undefined >= 400\<close> are both false.
  The call of \<^verbatim>\<open>this.log()\<close> only writes debug output.\<close>

definition Outcome :: "externals \<Rightarrow> outcome_args \<Rightarrow> js_error + outcome" where
  "Outcome ext args =
     (let this = \<lparr> o_url = a_url args, o_elapsed = hrTime ext (a_elapsed args),
                   o_expectedContent = a_expected args, o_reason = None, o_timeout = None,
                   o_error = None, o_statusCode = None, o_body = None \<rparr>
      in case a_error args of
           Some e \<Rightarrow>
             (if error_code e = Some ''ETIMEDOUT''
              then Inr (this\<lparr> o_reason := Some ''timeout'', o_timeout := Some True \<rparr>)
              else Inr (this\<lparr> o_reason := Some ''error'', o_error := Some e \<rparr>))
         | None \<Rightarrow>
             (let this = this\<lparr> o_statusCode := a_statusCode args, o_body := a_body args \<rparr>
              in if (case o_statusCode this of None \<Rightarrow> False | Some sc \<Rightarrow> sc < 200 \<or> sc \<ge> 400)
                 then Inr (this\<lparr> o_reason := Some ''statusCode'' \<rparr>)
                 else (case allMatching (a_body args) (a_expected args) of
                         Inl e \<Rightarrow> Inl e
                       | Inr m \<Rightarrow> if \<not> m then Inr (this\<lparr> o_reason := Some ''body'' \<rparr>)
                                  else Inr this)))"

subsection \<open>Status code of a run\<close>

definition statusCodeFromOutcomes :: "'a list \<Rightarrow> 'a list \<Rightarrow> int" where
  "statusCodeFromOutcomes passed failed =
     (let anyFailed = length failed > 0; anyPassed = length passed > 0
      in if anyFailed then 500 else if anyPassed then 200 else 404)"

subsection \<open>Requests, responses and the network\<close>

text \<open>\<^verbatim>\<open>Object.assign({}, headers, extra)\<close> on objects kept as association lists in
  insertion order: a key of \<open>extra\<close> that is already there keeps its place and takes the
  new value, a new key is added at the end.\<close>

fun assign1 :: "(string \<times> 'v) list \<Rightarrow> string \<times> 'v \<Rightarrow> (string \<times> 'v) list" where
  "assign1 [] kv = [kv]"
| "assign1 ((k, v) # rest) kv = (if k = fst kv then (k, snd kv) # rest else (k, v) # assign1 rest kv)"

definition assign :: "(string \<times> 'v) list \<Rightarrow> (string \<times> 'v) list \<Rightarrow> (string \<times> 'v) list" where
  "assign headers extra = foldl assign1 headers extra"

record request =
  rq_host    :: "string option"
  rq_port    :: "string option"
  rq_path    :: "string option"
  rq_headers :: "(string \<times> string option) list"

text \<open>What \<^verbatim>\<open>get\<close> resolves with: \<^verbatim>\<open>{ statusCode, headers, body }\<close>. Node gives the
  header names in lower case.\<close>

record response =
  rs_statusCode :: int
  rs_headers    :: "(string \<times> string) list"
  rs_body       :: string

text \<open>Which of the three handlers of \<^verbatim>\<open>get\<close> settles the promise first: the end of
  the response, an error event of the request, or the timer. The timer is always set, so
  one of the three happens.\<close>

datatype net_event = OnResponse response | OnError js_error | OnTimer

text \<open>The world of one check is the list of requests it has issued so far. The server
  decides from that history and the request what happens.\<close>

type_synonym world = "request list"
type_synonym server = "world \<Rightarrow> request \<Rightarrow> net_event"

definition get :: "server \<Rightarrow> request \<Rightarrow> nat \<Rightarrow> world \<Rightarrow> response completion \<times> world" where
  "get srv request timeout w =
     (case srv w request of
        OnResponse response \<Rightarrow> Resolved response
      | OnError e \<Rightarrow> Rejected e
      | OnTimer \<Rightarrow> Rejected (Error ''ETIMEDOUT'' (Some ''ETIMEDOUT'')),
      w @ [request])"

subsection \<open>withinSameDomain\<close>

text \<open>A template literal writes \<^verbatim>\<open>null\<close> as the text null.\<close>

fun template :: "string option \<Rightarrow> string" where
  "template None = ''null''"
| "template (Some s) = s"

text \<open>\<^verbatim>\<open>===\<close> of two hostnames is equality of the values. \<^verbatim>\<open>endsWith\<close> called on a
  \<^verbatim>\<open>null\<close> hostname throws a TypeError; \<^verbatim>\<open>||\<close> evaluates from left to right and stops
  at the first true operand.\<close>

definition withinSameDomain :: "parsed_url \<Rightarrow> parsed_url \<Rightarrow> js_error + bool" where
  "withinSameDomain from to =
     (let fromHost = u_hostname from; toHost = u_hostname to
      in if fromHost = toHost then Inr True
         else (case fromHost of
                 None \<Rightarrow> Inl (TypeError ''Cannot read property endsWith of null'')
               | Some f \<Rightarrow>
                   if endsWith f (''.'' @ template toHost) then Inr True
                   else (case toHost of
                           None \<Rightarrow> Inl (TypeError ''Cannot read property endsWith of null'')
                         | Some t \<Rightarrow> Inr (endsWith t (''.'' @ template fromHost)))))"

subsection \<open>runCheck\<close>

record runCheck_args =
  c_url       :: string
  c_headers   :: "(string \<times> string option) list"
  c_timeout   :: nat
  c_redirects :: "nat option"

text \<open>\<^verbatim>\<open>protocol.replace(/:$/, '')\<close>.\<close>

definition stripColon :: "string \<Rightarrow> string" where
  "stripColon p = (if p \<noteq> [] \<and> last p = CHR '':'' then butlast p else p)"

text \<open>\<^verbatim>\<open>args.redirects || 0\<close>.\<close>

fun redirectsOr0 :: "nat option \<Rightarrow> nat" where
  "redirectsOr0 None = 0"
| "redirectsOr0 (Some n) = n"

text \<open>\<^verbatim>\<open>~REDIRECT_STATUSES.indexOf(response.statusCode)\<close>.\<close>

fun arrayIndexOf :: "int list \<Rightarrow> int \<Rightarrow> nat \<Rightarrow> int" where
  "arrayIndexOf [] x i = - 1"
| "arrayIndexOf (y # ys) x i = (if y = x then int i else arrayIndexOf ys x (Suc i))"

definition isRedirect :: "response \<Rightarrow> bool" where
  "isRedirect response = truthy_num (NOT (arrayIndexOf REDIRECT_STATUSES (rs_statusCode response) 0))"

definition mkRequest :: "parsed_url \<Rightarrow> (string \<times> string option) list \<Rightarrow> js_error + request" where
  "mkRequest loopbackURL headers =
     (case u_protocol loopbackURL of
        None \<Rightarrow> Inl (TypeError ''Cannot read property replace of null'')
      | Some protocol \<Rightarrow>
          Inr \<lparr> rq_host = u_host loopbackURL, rq_port = u_port loopbackURL,
                rq_path = u_path loopbackURL,
                rq_headers = assign headers
                  [(''Host'', u_hostname loopbackURL),
                   (''X-Forwarded-Proto'', Some (stripColon protocol))] \<rparr>)"

text \<open>What the \<^verbatim>\<open>then\<close> callback does with a redirect response before it recurses:
  throw, return the response, or follow the redirect to the given URL. The header
  \<^verbatim>\<open>location\<close> is undefined when the response does not have it, and Node's
  \<^verbatim>\<open>url\<close> functions, which the resolver calls, throw a TypeError on an argument
  that is not a string.\<close>

datatype redirect_step = Fail js_error | Final | Follow string

definition onRedirect :: "(string \<Rightarrow> parsed_url) \<Rightarrow> parsed_url \<Rightarrow> nat \<Rightarrow> response \<Rightarrow> redirect_step" where
  "onRedirect resolver loopbackURL redirects response =
     (let redirectLoop = redirects \<ge> MAX_REDIRECT_COUNT
      in if redirectLoop then Fail (Error ''too many redirects'' None)
         else (case map_of (rs_headers response) ''location'' of
                 None \<Rightarrow> Fail (TypeError ''Parameter url must be a string, not undefined'')
               | Some redirectURL \<Rightarrow>
                   (case withinSameDomain (resolver redirectURL) loopbackURL of
                      Inl e \<Rightarrow> Fail e
                    | Inr sameDomain \<Rightarrow> if sameDomain then Follow redirectURL else Final)))"

text \<open>A throw inside the \<^verbatim>\<open>then\<close> callback, also one of the recursive call itself,
  rejects the promise that \<^verbatim>\<open>runCheck\<close> returned.\<close>

fun inThen :: "'a completion \<Rightarrow> 'a completion" where
  "inThen (Threw e) = Rejected e"
| "inThen c = c"

function runCheck :: "server \<Rightarrow> (string \<Rightarrow> parsed_url) \<Rightarrow> runCheck_args \<Rightarrow> world
    \<Rightarrow> response completion \<times> world" where
  "runCheck srv resolver args w =
     (let url = c_url args; headers = c_headers args; timeout = c_timeout args;
          redirects = redirectsOr0 (c_redirects args);
          loopbackURL = resolver url
      in case mkRequest loopbackURL headers of
           Inl e \<Rightarrow> (Threw e, w)
         | Inr request \<Rightarrow>
             (case get srv request timeout w of
                (Resolved response, w') \<Rightarrow>
                  if isRedirect response then
                    (case onRedirect resolver loopbackURL redirects response of
                       Fail e \<Rightarrow> (Rejected e, w')
                     | Final \<Rightarrow> (Resolved response, w')
                     | Follow redirectURL \<Rightarrow>
                         (let (c, w'') = runCheck srv resolver
                                \<lparr> c_url = redirectURL, c_headers = headers,
                                  c_timeout = timeout, c_redirects = Some (redirects + 1) \<rparr> w'
                          in (inThen c, w'')))
                  else (Resolved response, w')
              | (c, w') \<Rightarrow> (c, w')))"
  by pat_completeness auto
termination
  by (relation "measure (\<lambda>(srv, resolver, args, w). MAX_REDIRECT_COUNT - redirectsOr0 (c_redirects args))")
     (auto simp: onRedirect_def Let_def split: if_splits sum.splits option.splits)

subsection \<open>Promises\<close>

text \<open>\<^verbatim>\<open>p.then(f)\<close> and \<^verbatim>\<open>p.catch(g)\<close> for callbacks that return a plain value or
  throw. A call that threw before it returned a promise never reaches them.\<close>

fun thenP :: "'a completion \<Rightarrow> ('a \<Rightarrow> js_error + 'b) \<Rightarrow> 'b completion" where
  "thenP (Threw e) f = Threw e"
| "thenP (Rejected e) f = Rejected e"
| "thenP (Resolved v) f = (case f v of Inl e \<Rightarrow> Rejected e | Inr y \<Rightarrow> Resolved y)"

fun catchP :: "'a completion \<Rightarrow> (js_error \<Rightarrow> js_error + 'a) \<Rightarrow> 'a completion" where
  "catchP (Threw e) g = Threw e"
| "catchP (Rejected e) g = (case g e of Inl e' \<Rightarrow> Rejected e' | Inr y \<Rightarrow> Resolved y)"
| "catchP (Resolved v) g = Resolved v"

text \<open>\<^verbatim>\<open>Promise.all\<close> of the promises that \<^verbatim>\<open>map\<close> collected: the callback of
  \<^verbatim>\<open>map\<close> throwing ends the whole call; otherwise the values in the order of the
  array, or a rejection when one of the promises is rejected.\<close>

fun mapAll :: "'a completion list \<Rightarrow> 'a list completion" where
  "mapAll [] = Resolved []"
| "mapAll (Threw e # ps) = Threw e"
| "mapAll (Rejected e # ps) = (case mapAll ps of Threw e' \<Rightarrow> Threw e' | _ \<Rightarrow> Rejected e)"
| "mapAll (Resolved v # ps) =
     (case mapAll ps of Threw e \<Rightarrow> Threw e | Rejected e \<Rightarrow> Rejected e
      | Resolved vs \<Rightarrow> Resolved (v # vs))"

subsection \<open>checkFunction\<close>

text \<open>The registry: the object built by \<^verbatim>\<open>readChecks\<close>, as an association list in
  the order in which the keys were added (the order of \<^verbatim>\<open>Object.keys\<close>).\<close>

type_synonym registry = "(string \<times> string list) list"

definition loopbackResolve :: "externals \<Rightarrow> string option \<Rightarrow> string option \<Rightarrow> string option
    \<Rightarrow> string \<Rightarrow> parsed_url" where
  "loopbackResolve ext protocol hostname port relativeURL =
     (let absoluteURL = URL_parse ext (URL_resolve ext (template protocol @ ''//localhost/'') relativeURL);
          loopbackURL = absoluteURL\<lparr> u_hostname := u_hostname absoluteURL,
                                     u_host := hostname, u_port := port \<rparr>
      in loopbackURL)"

text \<open>\<^verbatim>\<open>requestID || ''\<close>.\<close>

fun orEmpty :: "string option \<Rightarrow> string" where
  "orEmpty None = []"
| "orEmpty (Some s) = s"

text \<open>One element of \<^verbatim>\<open>allChecks\<close>. The server that answers this check's requests
  and the time that \<^verbatim>\<open>process.hrtime(start)\<close> measures come from outside.\<close>

text \<open>The headers that every check sends.\<close>

definition checkHeaders :: "string option \<Rightarrow> (string \<times> string option) list" where
  "checkHeaders requestID =
     [(''User-Agent'', Some ''Mozilla/5.0 (compatible) Healthchecks http://broadly.com''),
      (''X-Request-Id'', Some (orEmpty requestID))]"

definition checkOne :: "externals \<Rightarrow> (string \<Rightarrow> parsed_url) \<Rightarrow> nat \<Rightarrow> string option
    \<Rightarrow> (string \<Rightarrow> server) \<Rightarrow> (string \<Rightarrow> nat \<times> nat) \<Rightarrow> string \<times> string list
    \<Rightarrow> outcome completion" where
  "checkOne ext resolver timeout requestID env clock check =
     (let checkURL = fst check; expected = snd check;
          headers = checkHeaders requestID;
          probe = fst (runCheck (env checkURL) resolver
                    \<lparr> c_url = checkURL, c_headers = headers, c_timeout = timeout,
                      c_redirects = None \<rparr> [])
      in catchP
           (thenP probe (\<lambda>response.
              Outcome ext \<lparr> a_url = checkURL, a_elapsed = clock checkURL, a_expected = expected,
                            a_error = None, a_statusCode = Some (rs_statusCode response),
                            a_body = Some (rs_body response) \<rparr>))
           (\<lambda>error.
              Outcome ext \<lparr> a_url = checkURL, a_elapsed = clock checkURL, a_expected = expected,
                            a_error = Some error, a_statusCode = None, a_body = None \<rparr>))"

definition checkFunction :: "externals \<Rightarrow> registry \<Rightarrow> nat \<Rightarrow> string \<Rightarrow> string option
    \<Rightarrow> (string \<Rightarrow> server) \<Rightarrow> (string \<Rightarrow> nat \<times> nat)
    \<Rightarrow> (outcome list \<times> outcome list) completion" where
  "checkFunction ext checks timeout url requestID env clock =
     (let protocol = u_protocol (URL_parse ext url);
          hostname = u_hostname (URL_parse ext url);
          port     = u_port (URL_parse ext url);
          allChecks = map (checkOne ext (loopbackResolve ext protocol hostname port)
                             timeout requestID env clock) checks;
          allOutcomes = mapAll allChecks
      in thenP allOutcomes (\<lambda>outcomes.
           Inr (filter (\<lambda>outcome. \<not> truthy_str (o_reason outcome)) outcomes,
                filter (\<lambda>outcome. truthy_str (o_reason outcome)) outcomes)))"

subsection \<open>readChecks\<close>

definition isNewline :: "char \<Rightarrow> bool" where
  "isNewline c = (c = CHR 0x0A \<or> c = CHR 0x0D)"

text \<open>White space of \<^verbatim>\<open>trim\<close> and of \<^verbatim>\<open>\s\<close> among the code units below 256.\<close>

definition isSpace :: "char \<Rightarrow> bool" where
  "isSpace c = (c \<in> set [CHR 0x09, CHR 0x0A, CHR 0x0B, CHR 0x0C, CHR 0x0D, CHR 0x20, CHR 0xA0])"

text \<open>\<^verbatim>\<open>\w\<close>.\<close>

definition isWord :: "char \<Rightarrow> bool" where
  "isWord c = ((CHR ''a'' \<le> c \<and> c \<le> CHR ''z'') \<or> (CHR ''A'' \<le> c \<and> c \<le> CHR ''Z'')
               \<or> (CHR ''0'' \<le> c \<and> c \<le> CHR ''9'') \<or> c = CHR ''_'')"

text \<open>\<^verbatim>\<open>split(/[\n\r]+/)\<close>: the pieces between the maximal runs of line breaks, an
  empty piece where the text begins or ends with a line break.\<close>

function splitLines :: "string \<Rightarrow> string \<Rightarrow> string list" where
  "splitLines piece [] = [piece]"
| "splitLines piece (c # cs) =
     (if isNewline c then piece # splitLines [] (dropWhile isNewline cs)
      else splitLines (piece @ [c]) cs)"
  by pat_completeness auto
termination
  by (relation "measure (\<lambda>(piece, s). length s)")
     (auto simp: le_imp_less_Suc length_dropWhile_le)

definition trim :: "string \<Rightarrow> string" where
  "trim s = rev (dropWhile isSpace (rev (dropWhile isSpace s)))"

text \<open>\<^verbatim>\<open>/^\w+=/.test(line)\<close>.\<close>

definition isAssignment :: "string \<Rightarrow> bool" where
  "isAssignment line =
     (takeWhile isWord line \<noteq> [] \<and>
      (case dropWhile isWord line of [] \<Rightarrow> False | c # cs \<Rightarrow> c = CHR ''=''))"

text \<open>\<^verbatim>\<open>line.match(/^(\S+)\s*(.*)/)\<close>: the two groups, or \<^verbatim>\<open>null\<close> when the line
  does not begin with a character that is not white space. The dot matches no line
  break.\<close>

definition matchLine :: "string \<Rightarrow> (string \<times> string) option" where
  "matchLine line =
     (let g1 = takeWhile (\<lambda>c. \<not> isSpace c) line;
          rest = dropWhile isSpace (dropWhile (\<lambda>c. \<not> isSpace c) line);
          g2 = takeWhile (\<lambda>c. \<not> isNewline c) rest
      in if g1 = [] then None else Some (g1, g2))"

definition toCheck :: "string \<Rightarrow> js_error + string \<times> string" where
  "toCheck line =
     (case matchLine line of
        None \<Rightarrow> Inl (TypeError ''Cannot read property 1 of null'')
      | Some (g1, g2) \<Rightarrow> Inr (g1, g2))"

text \<open>The two assertions on a check's URL, and the callback that parses the URL and
  makes them; an exception of \<^verbatim>\<open>URL.parse\<close> leaves the callback before the
  assertions.\<close>

definition absolutePathname :: "parsed_url \<Rightarrow> bool" where
  "absolutePathname url =
     (truthy_str (u_pathname url) \<and>
      (case u_pathname url of Some (c # cs) \<Rightarrow> c = CHR ''/'' | _ \<Rightarrow> False))"

definition httpProtocol :: "parsed_url \<Rightarrow> bool" where
  "httpProtocol url =
     (\<not> truthy_str (u_protocol url) \<or>
      (case u_protocol url of Some p \<Rightarrow> p = ''http:'' \<or> p = ''https:'' | None \<Rightarrow> False))"

definition validCheck :: "externals \<Rightarrow> string \<times> string \<Rightarrow> js_error + string \<times> string" where
  "validCheck ext check =
     (case URL_parse_error ext (fst check) of
        Some e \<Rightarrow> Inl e
      | None \<Rightarrow>
          (let url = URL_parse ext (fst check)
           in if \<not> absolutePathname url
              then Inl (AssertionError ''Check URL must have absolute pathname'')
              else if \<not> httpProtocol url
              then Inl (AssertionError ''Check URL may only use HTTP/S protocol'')
              else Inr check))"

text \<open>\<^verbatim>\<open>xs.map(f)\<close> for a callback that may throw: the first throw ends the call.\<close>

fun mapThrow :: "('a \<Rightarrow> js_error + 'b) \<Rightarrow> 'a list \<Rightarrow> js_error + 'b list" where
  "mapThrow f [] = Inr []"
| "mapThrow f (x # xs) =
     (case f x of Inl e \<Rightarrow> Inl e
      | Inr y \<Rightarrow> (case mapThrow f xs of Inl e \<Rightarrow> Inl e | Inr ys \<Rightarrow> Inr (y # ys)))"

text \<open>The callback of \<^verbatim>\<open>reduce\<close>: \<^verbatim>\<open>memo[url] = memo[url] || []\<close>, then the
  expected text is pushed when it is not empty.\<close>

definition addCheck :: "registry \<Rightarrow> string \<times> string \<Rightarrow> registry" where
  "addCheck memo check =
     (let url = fst check;
          memo = (if map_of memo url = None then memo @ [(url, [])] else memo)
      in if snd check \<noteq> []
         then map (\<lambda>(k, v). if k = url then (k, v @ [snd check]) else (k, v)) memo
         else memo)"

definition checkLines :: "string \<Rightarrow> string list" where
  "checkLines content =
     filter (\<lambda>line. \<not> isAssignment line)
       (filter (\<lambda>line. (case line of [] \<Rightarrow> True | c # cs \<Rightarrow> c \<noteq> CHR ''#''))
          (filter (\<lambda>line. length line \<noteq> 0)
             (map trim (splitLines [] content))))"

text \<open>\<^verbatim>\<open>readChecks\<close>, from what \<^verbatim>\<open>File.readFileSync(filename, 'utf-8')\<close> does, which
  is to return the text of the file or to throw (when there is no such file, say), to
  the registry that the returned check function is bound to. Each \<^verbatim>\<open>map\<close> runs over
  the whole array before the next one starts.\<close>

definition readChecks :: "externals \<Rightarrow> js_error + string \<Rightarrow> js_error + registry" where
  "readChecks ext file =
     (case file of
        Inl e \<Rightarrow> Inl e
      | Inr content \<Rightarrow>
          (case mapThrow toCheck (checkLines content) of
             Inl e \<Rightarrow> Inl e
           | Inr parsed \<Rightarrow>
               (case mapThrow (validCheck ext) parsed of
                  Inl e \<Rightarrow> Inl e
                | Inr checks \<Rightarrow> Inr (foldl addCheck [] checks))))"

subsection \<open>The middleware\<close>

definition compareProperty :: "('a \<Rightarrow> string) \<Rightarrow> 'a \<Rightarrow> 'a \<Rightarrow> int" where
  "compareProperty propName a b =
     (if propName a < propName b then - 1
      else if propName a > propName b then 1
      else 0)"

text \<open>\<^verbatim>\<open>Array.prototype.sort(compare)\<close>, as an insertion sort that keeps elements that
  compare equal in their order.\<close>

fun insertBy :: "('a \<Rightarrow> 'a \<Rightarrow> int) \<Rightarrow> 'a \<Rightarrow> 'a list \<Rightarrow> 'a list" where
  "insertBy compare x [] = [x]"
| "insertBy compare x (y # ys) =
     (if compare x y \<le> 0 then x # y # ys else y # insertBy compare x ys)"

definition sortBy :: "('a \<Rightarrow> 'a \<Rightarrow> int) \<Rightarrow> 'a list \<Rightarrow> 'a list" where
  "sortBy compare xs = foldr (insertBy compare) xs []"

definition removeBodyProp :: "outcome list \<Rightarrow> outcome list" where
  "removeBodyProp outcomes = map (\<lambda>item. item\<lparr> o_body := None \<rparr>) outcomes"

text \<open>What the handler writes: the status code and the two lists that are rendered,
  as JSON or through the template. The callback \<^verbatim>\<open>onFailed\<close> is called with the
  failed list after the response has been written.\<close>

record run_report =
  rr_statusCode :: int
  rr_passed     :: "outcome list"
  rr_failed     :: "outcome list"
  rr_json       :: bool

definition respond :: "bool \<Rightarrow> outcome list \<times> outcome list \<Rightarrow> run_report" where
  "respond useJSON outcomes =
     (let passed = sortBy (compareProperty o_url) (fst outcomes);
          failed = sortBy (compareProperty o_url) (snd outcomes);
          statusCode = statusCodeFromOutcomes passed failed
      in if useJSON
         then \<lparr> rr_statusCode = statusCode, rr_passed = removeBodyProp passed,
                rr_failed = removeBodyProp failed, rr_json = True \<rparr>
         else \<lparr> rr_statusCode = statusCode, rr_passed = passed, rr_failed = failed,
                rr_json = False \<rparr>)"

text \<open>The handler for one request: \<open>url\<close> is the text that \<^verbatim>\<open>URL.format\<close> made of
  the protocol, local address and local port of the socket.\<close>

definition handler :: "externals \<Rightarrow> registry \<Rightarrow> nat \<Rightarrow> bool \<Rightarrow> string \<Rightarrow> string option
    \<Rightarrow> (string \<Rightarrow> server) \<Rightarrow> (string \<Rightarrow> nat \<times> nat) \<Rightarrow> run_report completion" where
  "handler ext checks timeout useJSON url requestID env clock =
     thenP (checkFunction ext checks timeout url requestID env clock)
       (\<lambda>outcomes. Inr (respond useJSON outcomes))"

text \<open>The keys that \<^verbatim>\<open>JSON.stringify\<close> writes for an Outcome object: the names of
  its properties that have a value, in the order in which the constructor assigns
  them.\<close>

definition propertyNames :: "outcome \<Rightarrow> string list" where
  "propertyNames item =
     [''url'', ''elapsed'', ''expectedContent'']
     @ (if o_statusCode item = None then [] else [''statusCode''])
     @ (if o_body item = None then [] else [''body''])
     @ (if o_reason item = None then [] else [''reason''])
     @ (if o_timeout item = None then [] else [''timeout''])
     @ (if o_error item = None then [] else [''error''])"

subsection \<open>Probe chains\<close>

text \<open>The check URL and the world that \<^const>\<open>runCheck\<close> reaches after it has followed
  \<open>n\<close> redirects, each one a response with a redirect status whose \<^verbatim>\<open>location\<close> is
  within the same domain as the URL that was asked; \<^const>\<open>None\<close> when the first \<open>n\<close>
  responses are not all of that kind.\<close>

fun followChain :: "server \<Rightarrow> (string \<Rightarrow> parsed_url) \<Rightarrow> (string \<times> string option) list \<Rightarrow> nat
    \<Rightarrow> string \<Rightarrow> world \<Rightarrow> (string \<times> world) option" where
  "followChain srv resolver headers 0 url w = Some (url, w)"
| "followChain srv resolver headers (Suc n) url w =
     (case mkRequest (resolver url) headers of
        Inl e \<Rightarrow> None
      | Inr request \<Rightarrow>
          (case srv w request of
             OnResponse response \<Rightarrow>
               if isRedirect response then
                 (case map_of (rs_headers response) ''location'' of
                    None \<Rightarrow> None
                  | Some location \<Rightarrow>
                      if withinSameDomain (resolver location) (resolver url) = Inr True
                      then followChain srv resolver headers n location (w @ [request])
                      else None)
               else None
           | _ \<Rightarrow> None))"

subsection \<open>Node's functions on plain URLs\<close>




text \<open>What \<^verbatim>\<open>url.parse\<close> and \<^verbatim>\<open>url.resolve\<close> return on plain URLs: a relative path as
  above, or \<^verbatim>\<open>http://host\<close>, \<^verbatim>\<open>https://host\<close> or \<^verbatim>\<open>ftp://host\<close> followed by nothing
  or by such a path with a slash in front, where the host is in lower case and may end
  with a port; \<^verbatim>\<open>url.resolve\<close> also takes \<^verbatim>\<open>//host\<close> with such a path, and the empty
  text, as its second argument. URLs with a query, a fragment, an auth part or other
  characters are outside, except that \<^verbatim>\<open>url.parse\<close> throws a URIError on a URL
  whose auth part is a single percent sign, which cannot be decoded.
  \<^verbatim>\<open>pretty-hrtime\<close> writes one millisecond as \<^verbatim>\<open>1 ms\<close>.\<close>

definition node_parse :: "string \<Rightarrow> parsed_url" where
  "node_parse s =
     (if prefix ''http://'' s \<or> prefix ''https://'' s \<or> prefix ''ftp://'' s then
        (let protocol = takeWhile (\<lambda>c. c \<noteq> CHR ''/'') s;
             rest = drop (length protocol + 2) s;
             host = takeWhile (\<lambda>c. c \<noteq> CHR ''/'') rest;
             path = dropWhile (\<lambda>c. c \<noteq> CHR ''/'') rest;
             path = (if path = [] then ''/'' else path)
         in \<lparr> u_protocol = Some protocol,
              u_hostname = Some (takeWhile (\<lambda>c. c \<noteq> CHR '':'') host),
              u_host = Some host,
              u_port = (case dropWhile (\<lambda>c. c \<noteq> CHR '':'') host of [] \<Rightarrow> None | c # p \<Rightarrow> Some p),
              u_path = Some path, u_pathname = Some path \<rparr>)
      else \<lparr> u_protocol = None, u_hostname = None, u_host = None, u_port = None,
             u_path = (if s = [] then None else Some s),
             u_pathname = (if s = [] then None else Some s) \<rparr>)"

definition node_parse_error :: "string \<Rightarrow> js_error option" where
  "node_parse_error s =
     (if prefix ''http://%@'' s \<or> prefix ''https://%@'' s \<or> prefix ''ftp://%@'' s
      then Some (URIError ''URI malformed'') else None)"

text \<open>\<^verbatim>\<open>url.resolve\<close> writes a URL that has a host and no path with the path
  \<^verbatim>\<open>/\<close>.\<close>

definition node_format :: "string \<Rightarrow> string" where
  "node_format s =
     (if (prefix ''http://'' s \<or> prefix ''https://'' s \<or> prefix ''ftp://'' s)
         \<and> CHR ''/'' \<notin> set (drop (length (takeWhile (\<lambda>c. c \<noteq> CHR ''/'') s) + 2) s)
      then s @ ''/'' else s)"

definition node_resolve :: "string \<Rightarrow> string \<Rightarrow> string" where
  "node_resolve base relative =
     (let protocol = template (u_protocol (node_parse base));
          origin = protocol @ ''//'' @ template (u_host (node_parse base));
          directory = rev (dropWhile (\<lambda>c. c \<noteq> CHR ''/'')
                        (rev (template (u_pathname (node_parse base)))))
      in if relative = [] then node_format base
         else if prefix ''http://'' relative \<or> prefix ''https://'' relative
                 \<or> prefix ''ftp://'' relative then node_format relative
         else if prefix ''//'' relative then node_format (protocol @ relative)
         else if prefix ''/'' relative then origin @ relative
         else origin @ directory @ relative)"

definition node :: externals where
  "node = \<lparr> URL_parse = node_parse, URL_parse_error = node_parse_error,
            URL_resolve = node_resolve, hrTime = (\<lambda>t. ''1 ms'') \<rparr>"

text \<open>The resolver of a server that listens on 127.0.0.1:5000 without encryption.\<close>

definition localResolve :: "string \<Rightarrow> parsed_url" where
  "localResolve = loopbackResolve node (u_protocol (node_parse ''http://127.0.0.1:5000''))
     (u_hostname (node_parse ''http://127.0.0.1:5000''))
     (u_port (node_parse ''http://127.0.0.1:5000''))"

text \<open>Three servers: one whose every answer is a redirect to \<^verbatim>\<open>/loop\<close>; one that
  answers the first \<open>k\<close> requests in that way and then redirects to another site; one
  that redirects the first request to \<^verbatim>\<open>/login\<close> and answers the next with a page.\<close>

definition loopServer :: server where
  "loopServer w request =
     OnResponse \<lparr> rs_statusCode = 302, rs_headers = [(''location'', ''/loop'')], rs_body = [] \<rparr>"

definition awayServer :: "nat \<Rightarrow> server" where
  "awayServer k w request =
     (if length w < k
      then OnResponse \<lparr> rs_statusCode = 302, rs_headers = [(''location'', ''/loop'')], rs_body = [] \<rparr>
      else OnResponse \<lparr> rs_statusCode = 302,
             rs_headers = [(''location'', ''http://elsewhere.example/'')], rs_body = [] \<rparr>)"

definition loginServer :: server where
  "loginServer w request =
     (if w = []
      then OnResponse \<lparr> rs_statusCode = 302, rs_headers = [(''location'', ''/login'')], rs_body = [] \<rparr>
      else OnResponse \<lparr> rs_statusCode = 200, rs_headers = [], rs_body = ''Please log in'' \<rparr>)"

text \<open>The request that a check without a request id sends to that server for the
  given path, with the given \<^verbatim>\<open>Host\<close> header.\<close>

definition probeRequest :: "string \<Rightarrow> string \<Rightarrow> request" where
  "probeRequest path host =
     \<lparr> rq_host = Some ''127.0.0.1'', rq_port = Some ''5000'', rq_path = Some path,
       rq_headers =
         [(''User-Agent'', Some ''Mozilla/5.0 (compatible) Healthchecks http://broadly.com''),
          (''X-Request-Id'', Some []), (''Host'', Some host),
          (''X-Forwarded-Proto'', Some ''http'')] \<rparr>"

abbreviation loopRequest :: request where
  "loopRequest \<equiv> probeRequest ''/loop'' ''localhost''"

text \<open>A run of two checks against these servers, each measured at one millisecond,
  and the two Outcomes it produces.\<close>

definition sampleEnv :: "string \<Rightarrow> server" where
  "sampleEnv checkURL = (if checkURL = ''/loop'' then loopServer else loginServer)"

definition sampleClock :: "string \<Rightarrow> nat \<times> nat" where
  "sampleClock checkURL = (0, 1000000)"

definition loopOutcome :: outcome where
  "loopOutcome =
     \<lparr> o_url = ''/loop'', o_elapsed = ''1 ms'', o_expectedContent = [], o_reason = Some ''error'',
       o_timeout = None, o_error = Some (Error ''too many redirects'' None),
       o_statusCode = None, o_body = None \<rparr>"

definition loginOutcome :: outcome where
  "loginOutcome =
     \<lparr> o_url = ''/login'', o_elapsed = ''1 ms'', o_expectedContent = [''log in''], o_reason = None,
       o_timeout = None, o_error = None, o_statusCode = Some 200,
       o_body = Some ''Please log in'' \<rparr>"

text \<open>Two checks files: one that gives the registry of that run, with a comment, a
  setting and blank lines, and one whose second check has no absolute path. What
  reading a file that does not exist throws.\<close>

definition noSuchFile :: js_error where
  "noSuchFile = Error ''ENOENT: no such file or directory'' (Some ''ENOENT'')"

definition sampleChecks :: string where
  "sampleChecks = ''# checks'' @ [CHR 0x0A] @ ''/loop'' @ [CHR 0x0D, CHR 0x0A]
     @ ''timeout=5s'' @ [CHR 0x0A, CHR 0x0A] @ ''  /login log in '' @ [CHR 0x0A]"

definition brokenChecks :: string where
  "brokenChecks = ''/loop'' @ [CHR 0x0A] @ ''status 200 OK''"

section \<open>Properties\<close>

subsection \<open>Strings\<close>

lemma indexOfFrom_sublist:
  "indexOfFrom s t i = (if sublist t s then indexOfFrom s t i else - 1)
   \<and> (sublist t s \<longrightarrow> 0 \<le> indexOfFrom s t i)"
  by (induction s arbitrary: i) (auto simp: sublist_Cons_right)

lemma indexOf_truthy: "truthy_num (NOT (indexOf b t)) = sublist t b"
proof (cases "sublist t b")
  case True
  then have "0 \<le> indexOf b t"
    using indexOfFrom_sublist [of b t 0] by (simp add: indexOf_def)
  then show ?thesis using True by (simp add: truthy_num_def not_int_def)
next
  case False
  then have "indexOf b t = - 1"
    using indexOfFrom_sublist [of b t 0] by (simp add: indexOf_def)
  then show ?thesis using False by (simp add: truthy_num_def)
qed

lemma allMatching_Some:
  "allMatching (Some b) expected = Inr (\<forall>text \<in> set expected. sublist text b)"
  by (simp add: allMatching_def indexOf_truthy list_all_iff)

lemma endsWith_suffix: "endsWith s t = suffix t s"
proof
  assume "endsWith s t"
  then have "drop (length s - length t) s = t" by (simp add: endsWith_def)
  then have "s = take (length s - length t) s @ t" by (metis append_take_drop_id)
  then show "suffix t s" by (rule suffixI)
next
  assume "suffix t s"
  then obtain p where "s = p @ t" by (auto simp: suffix_def)
  then show "endsWith s t" by (simp add: endsWith_def)
qed

subsection \<open>The status code of the report\<close>

lemma length_insertBy: "length (insertBy c x xs) = Suc (length xs)"
  by (induction xs) auto

lemma length_sortBy: "length (sortBy c xs) = length xs"
  unfolding sortBy_def by (induction xs) (auto simp: length_insertBy)

lemma sortBy_Nil_iff: "sortBy c xs = [] \<longleftrightarrow> xs = []"
  using length_sortBy [of c xs] by (metis length_0_conv)

text \<open>
  Claim C4. The status code is 500 when the failed list is not empty, else 200 when the
  passed list is not empty, else 404; this holds of \<^const>\<open>statusCodeFromOutcomes\<close>, of
  the report that the handler writes (in terms of the lists of the report and of the
  lists it was given), and a registry without checks gives 404 with both lists empty.
\<close>

theorem statusCode_derivation:
  "statusCodeFromOutcomes passed failed
     = (if failed \<noteq> [] then 500 else if passed \<noteq> [] then 200 else 404)
   \<and> rr_statusCode (respond useJSON (p, f))
     = (if rr_failed (respond useJSON (p, f)) \<noteq> [] then 500
        else if rr_passed (respond useJSON (p, f)) \<noteq> [] then 200 else 404)
   \<and> rr_statusCode (respond useJSON (p, f)) = (if f \<noteq> [] then 500 else if p \<noteq> [] then 200 else 404)
   \<and> handler ext [] timeout useJSON url requestID env clock
     = Resolved \<lparr> rr_statusCode = 404, rr_passed = [], rr_failed = [], rr_json = useJSON \<rparr>"
proof -
  have 2: "rr_statusCode (respond useJSON (p, f)) = (if f \<noteq> [] then 500 else if p \<noteq> [] then 200 else 404)"
    by (simp add: respond_def Let_def statusCodeFromOutcomes_def sortBy_Nil_iff)
  have 3: "rr_failed (respond useJSON (p, f)) = [] \<longleftrightarrow> f = []" for p f
    by (simp add: respond_def Let_def removeBodyProp_def sortBy_Nil_iff)
  have 4: "rr_passed (respond useJSON (p, f)) = [] \<longleftrightarrow> p = []" for p f
    by (simp add: respond_def Let_def removeBodyProp_def sortBy_Nil_iff)
  have 5: "handler ext [] timeout useJSON url requestID env clock
     = Resolved \<lparr> rr_statusCode = 404, rr_passed = [], rr_failed = [], rr_json = useJSON \<rparr>"
    by (simp add: handler_def checkFunction_def Let_def respond_def sortBy_def
        statusCodeFromOutcomes_def removeBodyProp_def)
  show ?thesis by (simp add: statusCodeFromOutcomes_def 2 3 4 5)
qed

theorem statusCode_derivation_witness:
  "statusCodeFromOutcomes [''/a''] [''/b''] = 500
   \<and> statusCodeFromOutcomes [''/a''] [] = 200
   \<and> statusCodeFromOutcomes ([] :: string list) [] = 404"
  using statusCode_derivation [of "[''/a'']" "[''/b'']"]
    statusCode_derivation [of "[''/a'']" "[]"]
    statusCode_derivation [of "[] :: string list" "[]"]
  by simp

subsection \<open>The same-domain predicate\<close>

text \<open>
  Claim C6. For hostnames \<open>a\<close> and \<open>b\<close> (strings), \<^const>\<open>withinSameDomain\<close> returns true
  exactly when \<open>a = b\<close>, or \<open>a\<close> ends with a dot followed by \<open>b\<close>, or \<open>b\<close> ends with a dot
  followed by \<open>a\<close>; and it returns the same with its two arguments exchanged.
\<close>

theorem withinSameDomain_iff_symmetric:
  "withinSameDomain (u\<lparr>u_hostname := Some a\<rparr>) (v\<lparr>u_hostname := Some b\<rparr>)
     = Inr (a = b \<or> suffix (''.'' @ b) a \<or> suffix (''.'' @ a) b)
   \<and> withinSameDomain (u\<lparr>u_hostname := Some a\<rparr>) (v\<lparr>u_hostname := Some b\<rparr>)
     = withinSameDomain (v\<lparr>u_hostname := Some b\<rparr>) (u\<lparr>u_hostname := Some a\<rparr>)"
  by (auto simp: withinSameDomain_def endsWith_suffix Let_def)

theorem withinSameDomain_iff_symmetric_witness:
  "withinSameDomain (node_parse ''http://a.b.com/''\<lparr>u_hostname := Some ''a.b.com''\<rparr>)
      (node_parse ''http://b.com/''\<lparr>u_hostname := Some ''b.com''\<rparr>) = Inr True
   \<and> withinSameDomain (node_parse ''http://b.com/''\<lparr>u_hostname := Some ''b.com''\<rparr>)
      (node_parse ''http://a.b.com/''\<lparr>u_hostname := Some ''a.b.com''\<rparr>) = Inr True"
  using withinSameDomain_iff_symmetric [where u = "node_parse ''http://a.b.com/''"
      and a = "''a.b.com''" and v = "node_parse ''http://b.com/''" and b = "''b.com''"]
  by (auto simp: suffix_to_prefix)

subsection \<open>The probe runner\<close>

declare runCheck.simps [simp del]

lemma isRedirect_iff: "isRedirect response \<longleftrightarrow> rs_statusCode response \<in> {301, 302, 303, 307}"
  by (simp add: isRedirect_def REDIRECT_STATUSES_def truthy_num_def not_int_def)

lemma runCheck_redirects_Some:
  "runCheck srv resolver args w
     = runCheck srv resolver (args\<lparr> c_redirects := Some (redirectsOr0 (c_redirects args)) \<rparr>) w"
  by (subst runCheck.simps, subst (2) runCheck.simps) simp

lemma runCheck_no_request:
  "mkRequest (resolver (c_url args)) (c_headers args) = Inl e
   \<Longrightarrow> runCheck srv resolver args w = (Threw e, w)"
  by (subst runCheck.simps) simp

lemma runCheck_follow:
  assumes "mkRequest (resolver (c_url args)) (c_headers args) = Inr request"
    and "srv w request = OnResponse response"
    and "isRedirect response"
    and "onRedirect resolver (resolver (c_url args)) (redirectsOr0 (c_redirects args)) response
           = Follow location"
  shows "runCheck srv resolver args w =
     (case runCheck srv resolver
        \<lparr> c_url = location, c_headers = c_headers args, c_timeout = c_timeout args,
          c_redirects = Some (redirectsOr0 (c_redirects args) + 1) \<rparr> (w @ [request])
      of (c, w'') \<Rightarrow> (inThen c, w''))"
  using assms by (subst runCheck.simps) (simp add: get_def)

lemma runCheck_too_many:
  assumes "mkRequest (resolver (c_url args)) (c_headers args) = Inr request"
    and "srv w request = OnResponse response"
    and "isRedirect response"
    and "MAX_REDIRECT_COUNT \<le> redirectsOr0 (c_redirects args)"
  shows "runCheck srv resolver args w
     = (Rejected (Error ''too many redirects'' None), w @ [request])"
  using assms by (subst runCheck.simps) (simp add: get_def onRedirect_def)

lemma runCheck_final:
  assumes "mkRequest (resolver (c_url args)) (c_headers args) = Inr request"
    and "srv w request = OnResponse response"
    and "isRedirect response"
    and "redirectsOr0 (c_redirects args) < MAX_REDIRECT_COUNT"
    and "map_of (rs_headers response) ''location'' = Some location"
    and "withinSameDomain (resolver location) (resolver (c_url args)) = Inr False"
  shows "runCheck srv resolver args w = (Resolved response, w @ [request])"
  using assms by (subst runCheck.simps) (simp add: get_def onRedirect_def)

lemma runCheck_plain:
  assumes "mkRequest (resolver (c_url args)) (c_headers args) = Inr request"
    and "srv w request = OnResponse response"
    and "\<not> isRedirect response"
  shows "runCheck srv resolver args w = (Resolved response, w @ [request])"
  using assms by (subst runCheck.simps) (simp add: get_def)

lemma inThen_idem: "inThen (inThen c) = inThen c"
  by (cases c) auto

lemma runCheck_chain:
  assumes "followChain srv resolver headers n url w = Some (u, w')"
    and "r + n \<le> MAX_REDIRECT_COUNT"
  shows "runCheck srv resolver
           \<lparr> c_url = url, c_headers = headers, c_timeout = timeout, c_redirects = Some r \<rparr> w
         = (case runCheck srv resolver
              \<lparr> c_url = u, c_headers = headers, c_timeout = timeout, c_redirects = Some (r + n) \<rparr> w'
            of (c, w'') \<Rightarrow> (if n = 0 then c else inThen c, w''))"
  using assms
proof (induction n arbitrary: url w r)
  case 0
  then show ?case by simp
next
  case (Suc n)
  let ?args = "\<lparr> c_url = url, c_headers = headers, c_timeout = timeout, c_redirects = Some r \<rparr>"
  from Suc.prems(1) obtain request response location where
    rq: "mkRequest (resolver url) headers = Inr request"
    and rs: "srv w request = OnResponse response"
    and red: "isRedirect response"
    and loc: "map_of (rs_headers response) ''location'' = Some location"
    and same: "withinSameDomain (resolver location) (resolver url) = Inr True"
    and rest: "followChain srv resolver headers n location (w @ [request]) = Some (u, w')"
    by (auto split: sum.splits net_event.splits if_splits option.splits)
  from Suc.prems(2) have r: "r < MAX_REDIRECT_COUNT" "r + 1 + n \<le> MAX_REDIRECT_COUNT" by simp_all
  have "onRedirect resolver (resolver url) r response = Follow location"
    using r loc same by (simp add: onRedirect_def)
  then have step: "runCheck srv resolver ?args w =
     (case runCheck srv resolver
        \<lparr> c_url = location, c_headers = headers, c_timeout = timeout, c_redirects = Some (r + 1) \<rparr>
        (w @ [request])
      of (c, w'') \<Rightarrow> (inThen c, w''))"
    using runCheck_follow [of resolver ?args request srv w response location] rq rs red by simp
  show ?case
    unfolding step Suc.IH [OF rest r(2)]
    by (simp add: inThen_idem split: prod.splits)
qed

lemma followChain_length:
  "followChain srv resolver headers n url w = Some (u, w') \<Longrightarrow> length w' = length w + n"
  by (induction n arbitrary: url w)
     (auto split: sum.splits net_event.splits if_splits option.splits)

lemma runCheck_no_follow:
  assumes "mkRequest (resolver (c_url args)) (c_headers args) = Inr request"
    and "srv w request = OnResponse response"
    and "isRedirect response"
    and "\<forall>location. onRedirect resolver (resolver (c_url args)) (redirectsOr0 (c_redirects args)) response
           \<noteq> Follow location"
  shows "snd (runCheck srv resolver args w) = w @ [request]"
  using assms by (subst runCheck.simps) (simp add: get_def Let_def split: redirect_step.splits)

lemma onRedirect_Follow:
  "onRedirect resolver lu r response = Follow location \<Longrightarrow> r < MAX_REDIRECT_COUNT"
  by (auto simp: onRedirect_def split: if_splits)

lemma runCheck_requests:
  "length (snd (runCheck srv resolver args w))
     \<le> length w + max 1 (MAX_REDIRECT_COUNT + 1 - redirectsOr0 (c_redirects args))"
proof (induction "MAX_REDIRECT_COUNT - redirectsOr0 (c_redirects args)" arbitrary: args w
    rule: less_induct)
  case less
  let ?r = "redirectsOr0 (c_redirects args)"
  show ?case
  proof (cases "mkRequest (resolver (c_url args)) (c_headers args)")
    case (Inl e)
    then show ?thesis by (simp add: runCheck_no_request)
  next
    case (Inr request)
    show ?thesis
    proof (cases "\<exists>response location. srv w request = OnResponse response \<and> isRedirect response
        \<and> onRedirect resolver (resolver (c_url args)) ?r response = Follow location")
      case True
      then obtain response location where rs: "srv w request = OnResponse response"
        and red: "isRedirect response"
        and fol: "onRedirect resolver (resolver (c_url args)) ?r response = Follow location"
        by blast
      let ?next = "\<lparr> c_url = location, c_headers = c_headers args, c_timeout = c_timeout args,
          c_redirects = Some (?r + 1) \<rparr>"
      from fol have r: "?r < MAX_REDIRECT_COUNT" by (rule onRedirect_Follow)
      then have "MAX_REDIRECT_COUNT - redirectsOr0 (c_redirects ?next) < MAX_REDIRECT_COUNT - ?r"
        by simp
      then have "length (snd (runCheck srv resolver ?next (w @ [request])))
          \<le> length (w @ [request]) + max 1 (MAX_REDIRECT_COUNT + 1 - redirectsOr0 (c_redirects ?next))"
        by (rule less)
      moreover have "snd (runCheck srv resolver args w) = snd (runCheck srv resolver ?next (w @ [request]))"
        using runCheck_follow [of resolver args request srv w response location] Inr rs red fol
        by (simp split: prod.splits)
      ultimately show ?thesis using r by simp
    next
      case False
      have "snd (runCheck srv resolver args w) = w @ [request]"
      proof (cases "srv w request")
        case (OnResponse response)
        show ?thesis
        proof (cases "isRedirect response")
          case True
          with False OnResponse show ?thesis
            using runCheck_no_follow [of resolver args request srv w response] Inr by simp
        next
          case False
          then show ?thesis
            using runCheck_plain [of resolver args request srv w response] Inr OnResponse by simp
        qed
      next
        case (OnError e)
        then show ?thesis by (subst runCheck.simps) (simp add: Inr get_def)
      next
        case OnTimer
        then show ?thesis by (subst runCheck.simps) (simp add: Inr get_def)
      qed
      then show ?thesis by simp
    qed
  qed
qed

lemma localResolve_loop:
  "localResolve ''/loop'' = \<lparr> u_protocol = Some ''http:'', u_hostname = Some ''localhost'',
     u_host = Some ''127.0.0.1'', u_port = Some ''5000'', u_path = Some ''/loop'',
     u_pathname = Some ''/loop'' \<rparr>"
  by (simp add: localResolve_def loopbackResolve_def node_def node_parse_def node_resolve_def node_format_def Let_def)

lemma localResolve_elsewhere:
  "localResolve ''http://elsewhere.example/'' = \<lparr> u_protocol = Some ''http:'',
     u_hostname = Some ''elsewhere.example'',
     u_host = Some ''127.0.0.1'', u_port = Some ''5000'', u_path = Some ''/'',
     u_pathname = Some ''/'' \<rparr>"
  by (simp add: localResolve_def loopbackResolve_def node_def node_parse_def node_resolve_def node_format_def Let_def)

lemma mkRequest_loop: "mkRequest (localResolve ''/loop'') (checkHeaders None) = Inr loopRequest"
  by (simp add: localResolve_loop mkRequest_def checkHeaders_def assign_def stripColon_def probeRequest_def)

lemma same_loop: "withinSameDomain (localResolve ''/loop'') (localResolve ''/loop'') = Inr True"
  by (simp add: withinSameDomain_def)

lemma elsewhere_loop:
  "withinSameDomain (localResolve ''http://elsewhere.example/'') (localResolve ''/loop'') = Inr False"
  by (simp add: withinSameDomain_def localResolve_loop localResolve_elsewhere endsWith_def)

lemma followChain_loopServer:
  "followChain loopServer localResolve (checkHeaders None) n ''/loop'' w
     = Some (''/loop'', w @ replicate n loopRequest)"
proof (induction n arbitrary: w)
  case 0
  show ?case by simp
next
  case (Suc n)
  show ?case
    using Suc [of "w @ [loopRequest]"]
    by (simp add: mkRequest_loop loopServer_def isRedirect_iff same_loop)
qed

lemma followChain_awayServer:
  "length w + n \<le> k \<Longrightarrow>
   followChain (awayServer k) localResolve (checkHeaders None) n ''/loop'' w
     = Some (''/loop'', w @ replicate n loopRequest)"
proof (induction n arbitrary: w)
  case 0
  show ?case by simp
next
  case (Suc n)
  then show ?case
    using Suc.IH [of "w @ [loopRequest]"]
    by (simp add: mkRequest_loop awayServer_def isRedirect_iff same_loop)
qed

lemma runCheck_Threw_iff:
  "fst (runCheck srv resolver args w) = Threw e
     \<longleftrightarrow> mkRequest (resolver (c_url args)) (c_headers args) = Inl e"
proof (cases "mkRequest (resolver (c_url args)) (c_headers args)")
  case (Inl e')
  then show ?thesis by (simp add: runCheck_no_request)
next
  case (Inr request)
  have "inThen c \<noteq> Threw e" for c :: "response completion" by (cases c) auto
  then have "fst (runCheck srv resolver args w) \<noteq> Threw e"
    by (subst runCheck.simps)
       (simp add: Inr get_def Let_def split: net_event.splits redirect_step.splits prod.splits)
  then show ?thesis by (simp add: Inr)
qed

lemma Outcome_error:
  "a_error args = Some e \<Longrightarrow> \<exists>out. Outcome ext args = Inr out \<and> o_url out = a_url args
     \<and> o_reason out = (if error_code e = Some ''ETIMEDOUT'' then Some ''timeout'' else Some ''error'')"
  by (simp add: Outcome_def)

lemma Outcome_response:
  "a_error args = None \<Longrightarrow> a_statusCode args = Some sc \<Longrightarrow> a_body args = Some body \<Longrightarrow>
   \<exists>out. Outcome ext args = Inr out \<and> o_url out = a_url args
     \<and> o_reason out = (if sc < 200 \<or> sc \<ge> 400 then Some ''statusCode''
                       else if \<exists>text \<in> set (a_expected args). \<not> sublist text body then Some ''body''
                       else None)"
  by (simp add: Outcome_def allMatching_Some)

lemma checkOne_Resolved:
  assumes "fst (runCheck (env url) resolver
      \<lparr> c_url = url, c_headers = checkHeaders requestID, c_timeout = timeout, c_redirects = None \<rparr> [])
      = Resolved response"
  shows "\<exists>out. Outcome ext \<lparr> a_url = url, a_elapsed = clock url, a_expected = expected,
            a_error = None, a_statusCode = Some (rs_statusCode response),
            a_body = Some (rs_body response) \<rparr> = Inr out
     \<and> checkOne ext resolver timeout requestID env clock (url, expected) = Resolved out"
proof -
  let ?a = "\<lparr> a_url = url, a_elapsed = clock url, a_expected = expected,
            a_error = None, a_statusCode = Some (rs_statusCode response),
            a_body = Some (rs_body response) \<rparr>"
  obtain out where "Outcome ext ?a = Inr out"
    using Outcome_response [of ?a "rs_statusCode response" "rs_body response" ext] by auto
  then show ?thesis using assms by (simp add: checkOne_def Let_def)
qed

lemma checkOne_Rejected:
  assumes "fst (runCheck (env url) resolver
      \<lparr> c_url = url, c_headers = checkHeaders requestID, c_timeout = timeout, c_redirects = None \<rparr> [])
      = Rejected e"
  shows "\<exists>out. Outcome ext \<lparr> a_url = url, a_elapsed = clock url, a_expected = expected,
            a_error = Some e, a_statusCode = None, a_body = None \<rparr> = Inr out
     \<and> checkOne ext resolver timeout requestID env clock (url, expected) = Resolved out"
proof -
  let ?a = "\<lparr> a_url = url, a_elapsed = clock url, a_expected = expected,
            a_error = Some e, a_statusCode = None, a_body = None \<rparr>"
  obtain out where "Outcome ext ?a = Inr out"
    using Outcome_error [of ?a e ext] by auto
  then show ?thesis using assms by (simp add: checkOne_def Let_def)
qed

lemma runCheck_top_chain:
  assumes "followChain srv resolver headers n url [] = Some (u, w)"
    and "n \<le> MAX_REDIRECT_COUNT"
    and "runCheck srv resolver
           \<lparr> c_url = u, c_headers = headers, c_timeout = timeout, c_redirects = Some n \<rparr> w = (c, w')"
    and "\<forall>e. c \<noteq> Threw e"
  shows "runCheck srv resolver
           \<lparr> c_url = url, c_headers = headers, c_timeout = timeout, c_redirects = None \<rparr> [] = (c, w')"
proof -
  let ?args = "\<lparr> c_url = url, c_headers = headers, c_timeout = timeout, c_redirects = None \<rparr>"
  have "runCheck srv resolver ?args [] = runCheck srv resolver (?args\<lparr> c_redirects := Some 0 \<rparr>) []"
    using runCheck_redirects_Some [of srv resolver ?args "[]"] by simp
  also have "\<dots> = (if n = 0 then c else inThen c, w')"
    using runCheck_chain [of srv resolver headers n url "[]" u w 0 timeout] assms by simp
  also have "inThen c = c" using assms(4) by (cases c) auto
  finally show ?thesis by simp
qed



lemma localResolve_login:
  "localResolve ''/login'' = \<lparr> u_protocol = Some ''http:'', u_hostname = Some ''localhost'',
     u_host = Some ''127.0.0.1'', u_port = Some ''5000'', u_path = Some ''/login'',
     u_pathname = Some ''/login'' \<rparr>"
  by (simp add: localResolve_def loopbackResolve_def node_def node_parse_def node_resolve_def node_format_def Let_def)



lemma mkRequest_login:
  "mkRequest (localResolve ''/login'') (checkHeaders None) = Inr (probeRequest ''/login'' ''localhost'')"
  by (simp add: localResolve_login mkRequest_def checkHeaders_def assign_def stripColon_def
      probeRequest_def)





text \<open>
  Claim C2. \<^const>\<open>runCheck\<close> is a total function, and a check that starts with the
  counter at 0 issues at most 11 requests, whatever the server answers. When the first
  ten responses are redirects within the same domain (\<^const>\<open>followChain\<close> reaches the
  tenth hop) and the eleventh response is a redirect again, the check has followed
  exactly ten hops and is rejected with the error \<^verbatim>\<open>too many redirects\<close> after the
  eleventh request.
\<close>

theorem runCheck_redirect_bound:
  "length (snd (runCheck srv resolver
       \<lparr> c_url = url, c_headers = headers, c_timeout = timeout, c_redirects = None \<rparr> []))
     \<le> MAX_REDIRECT_COUNT + 1
   \<and> (followChain srv resolver headers 10 url [] = Some (u, w)
        \<and> mkRequest (resolver u) headers = Inr request
        \<and> srv w request = OnResponse response
        \<and> rs_statusCode response \<in> {301, 302, 303, 307}
      \<longrightarrow> length w = 10
          \<and> runCheck srv resolver
               \<lparr> c_url = url, c_headers = headers, c_timeout = timeout, c_redirects = None \<rparr> []
             = (Rejected (Error ''too many redirects'' None), w @ [request]))"
proof (intro conjI impI)
  let ?args = "\<lparr> c_url = url, c_headers = headers, c_timeout = timeout, c_redirects = None \<rparr>"
  show "length (snd (runCheck srv resolver ?args [])) \<le> MAX_REDIRECT_COUNT + 1"
    using runCheck_requests [of srv resolver ?args "[]"] by simp
next
  let ?args = "\<lparr> c_url = url, c_headers = headers, c_timeout = timeout, c_redirects = None \<rparr>"
  assume a: "followChain srv resolver headers 10 url [] = Some (u, w)
        \<and> mkRequest (resolver u) headers = Inr request
        \<and> srv w request = OnResponse response
        \<and> rs_statusCode response \<in> {301, 302, 303, 307}"
  then show "length w = 10" using followChain_length [of srv resolver headers 10 url "[]" u w] by simp
  have "runCheck srv resolver ?args [] = runCheck srv resolver (?args\<lparr> c_redirects := Some 0 \<rparr>) []"
    using runCheck_redirects_Some [of srv resolver ?args "[]"] by simp
  also have "\<dots> = (case runCheck srv resolver
              \<lparr> c_url = u, c_headers = headers, c_timeout = timeout, c_redirects = Some (0 + 10) \<rparr> w
            of (c, w'') \<Rightarrow> (if (10::nat) = 0 then c else inThen c, w''))"
    using runCheck_chain [of srv resolver headers 10 url "[]" u w 0 timeout] a
    by (simp add: MAX_REDIRECT_COUNT_def)
  also have "runCheck srv resolver
              \<lparr> c_url = u, c_headers = headers, c_timeout = timeout, c_redirects = Some (0 + 10) \<rparr> w
         = (Rejected (Error ''too many redirects'' None), w @ [request])"
    using a runCheck_too_many [of resolver
        "\<lparr> c_url = u, c_headers = headers, c_timeout = timeout, c_redirects = Some (0 + 10) \<rparr>"
        request srv w response]
    by (simp add: isRedirect_iff MAX_REDIRECT_COUNT_def)
  finally show "runCheck srv resolver ?args [] = (Rejected (Error ''too many redirects'' None), w @ [request])"
    by simp
qed

theorem runCheck_redirect_bound_witness:
  "followChain loopServer localResolve (checkHeaders None) 10 ''/loop'' []
     = Some (''/loop'', replicate 10 loopRequest)
   \<and> mkRequest (localResolve ''/loop'') (checkHeaders None) = Inr loopRequest
   \<and> loopServer (replicate 10 loopRequest) loopRequest
     = OnResponse \<lparr> rs_statusCode = 302, rs_headers = [(''location'', ''/loop'')], rs_body = [] \<rparr>
   \<and> length (replicate 10 loopRequest) = 10
   \<and> runCheck loopServer localResolve
         \<lparr> c_url = ''/loop'', c_headers = checkHeaders None, c_timeout = 3000,
           c_redirects = None \<rparr> []
     = (Rejected (Error ''too many redirects'' None), replicate 10 loopRequest @ [loopRequest])"
proof -
  let ?response = "\<lparr> rs_statusCode = 302, rs_headers = [(''location'', ''/loop'')], rs_body = [] \<rparr>"
  have 1: "followChain loopServer localResolve (checkHeaders None) 10 ''/loop'' []
      = Some (''/loop'', replicate 10 loopRequest)"
    using followChain_loopServer [of 10 "[]"] by simp
  have 2: "loopServer (replicate 10 loopRequest) loopRequest = OnResponse ?response"
    by (simp add: loopServer_def)
  show ?thesis
    using runCheck_redirect_bound [of loopServer localResolve "''/loop''" "checkHeaders None" 3000
        "''/loop''" "replicate 10 loopRequest" loopRequest ?response] 1 2 mkRequest_loop
    by simp
qed

text \<open>
  Claim C3, as amended. When a check has followed fewer than ten redirects and the next
  response has a status code among 301, 302, 303 and 307 and a \<^verbatim>\<open>location\<close> that
  resolves to a host which is not within the same domain as the host of the URL that
  was asked, \<^const>\<open>runCheck\<close> issues no further request and resolves with that
  response, and the Outcome of the check is the one constructed from the status code
  and the body of that response.
\<close>

theorem cross_domain_redirect_final:
  "followChain (env url) resolver (checkHeaders requestID) n url [] = Some (u, w)
   \<and> n < MAX_REDIRECT_COUNT
   \<and> mkRequest (resolver u) (checkHeaders requestID) = Inr request
   \<and> env url w request = OnResponse response
   \<and> rs_statusCode response \<in> {301, 302, 303, 307}
   \<and> map_of (rs_headers response) ''location'' = Some location
   \<and> withinSameDomain (resolver location) (resolver u) = Inr False
   \<longrightarrow> runCheck (env url) resolver
         \<lparr> c_url = url, c_headers = checkHeaders requestID, c_timeout = timeout,
           c_redirects = None \<rparr> [] = (Resolved response, w @ [request])
     \<and> (\<exists>out. Outcome ext \<lparr> a_url = url, a_elapsed = clock url, a_expected = expected,
                  a_error = None, a_statusCode = Some (rs_statusCode response),
                  a_body = Some (rs_body response) \<rparr> = Inr out
          \<and> checkOne ext resolver timeout requestID env clock (url, expected) = Resolved out)"
proof (intro impI)
  assume a: "followChain (env url) resolver (checkHeaders requestID) n url [] = Some (u, w)
   \<and> n < MAX_REDIRECT_COUNT
   \<and> mkRequest (resolver u) (checkHeaders requestID) = Inr request
   \<and> env url w request = OnResponse response
   \<and> rs_statusCode response \<in> {301, 302, 303, 307}
   \<and> map_of (rs_headers response) ''location'' = Some location
   \<and> withinSameDomain (resolver location) (resolver u) = Inr False"
  let ?last = "\<lparr> c_url = u, c_headers = checkHeaders requestID, c_timeout = timeout,
      c_redirects = Some n \<rparr>"
  have "runCheck (env url) resolver ?last w = (Resolved response, w @ [request])"
    using a runCheck_final [of resolver ?last request "env url" w response location]
    by (simp add: isRedirect_iff)
  then have run: "runCheck (env url) resolver
         \<lparr> c_url = url, c_headers = checkHeaders requestID, c_timeout = timeout,
           c_redirects = None \<rparr> [] = (Resolved response, w @ [request])"
    using a runCheck_top_chain [of "env url" resolver "checkHeaders requestID" n url u w timeout
        "Resolved response" "w @ [request]"]
    by simp
  then show "runCheck (env url) resolver
         \<lparr> c_url = url, c_headers = checkHeaders requestID, c_timeout = timeout,
           c_redirects = None \<rparr> [] = (Resolved response, w @ [request])
     \<and> (\<exists>out. Outcome ext \<lparr> a_url = url, a_elapsed = clock url, a_expected = expected,
                  a_error = None, a_statusCode = Some (rs_statusCode response),
                  a_body = Some (rs_body response) \<rparr> = Inr out
          \<and> checkOne ext resolver timeout requestID env clock (url, expected) = Resolved out)"
    using checkOne_Resolved [of env url resolver requestID timeout response ext clock expected]
    by simp
qed


theorem cross_domain_redirect_final_witness:
  "followChain (awayServer 3) localResolve (checkHeaders None) 3 ''/loop'' []
     = Some (''/loop'', replicate 3 loopRequest)
   \<and> 3 < MAX_REDIRECT_COUNT
   \<and> mkRequest (localResolve ''/loop'') (checkHeaders None) = Inr loopRequest
   \<and> awayServer 3 (replicate 3 loopRequest) loopRequest
     = OnResponse \<lparr> rs_statusCode = 302,
         rs_headers = [(''location'', ''http://elsewhere.example/'')], rs_body = [] \<rparr>
   \<and> withinSameDomain (localResolve ''http://elsewhere.example/'') (localResolve ''/loop'') = Inr False
   \<and> runCheck (awayServer 3) localResolve
         \<lparr> c_url = ''/loop'', c_headers = checkHeaders None, c_timeout = 3000,
           c_redirects = None \<rparr> []
       = (Resolved \<lparr> rs_statusCode = 302,
            rs_headers = [(''location'', ''http://elsewhere.example/'')], rs_body = [] \<rparr>,
          replicate 3 loopRequest @ [loopRequest])"
proof -
  let ?response = "\<lparr> rs_statusCode = 302,
         rs_headers = [(''location'', ''http://elsewhere.example/'')], rs_body = [] \<rparr>"
  have 1: "followChain (awayServer 3) localResolve (checkHeaders None) 3 ''/loop'' []
     = Some (''/loop'', replicate 3 loopRequest)"
    using followChain_awayServer [of "[]" 3 3] by simp
  have 2: "awayServer 3 (replicate 3 loopRequest) loopRequest = OnResponse ?response"
    by (simp add: awayServer_def)
  have 3: "(3::nat) < MAX_REDIRECT_COUNT" by (simp add: MAX_REDIRECT_COUNT_def)
  show ?thesis
    using cross_domain_redirect_final [of "\<lambda>u. awayServer 3" "''/loop''" localResolve None 3
        "''/loop''" "replicate 3 loopRequest" loopRequest ?response "''http://elsewhere.example/''"
        3000 node "\<lambda>u. (0, 1000000)" "[]"]
      1 2 3 mkRequest_loop elsewhere_loop
    by simp
qed

text \<open>The claim as it was stated fails when the counter has reached 10: after ten
  followed redirects a redirect to another site is answered with the error
  \<^verbatim>\<open>too many redirects\<close>, not with the redirect response.\<close>

theorem cross_domain_redirect_counterexample:
  "followChain (awayServer 10) localResolve (checkHeaders None) 10 ''/loop'' []
     = Some (''/loop'', replicate 10 loopRequest)
   \<and> mkRequest (localResolve ''/loop'') (checkHeaders None) = Inr loopRequest
   \<and> awayServer 10 (replicate 10 loopRequest) loopRequest
     = OnResponse \<lparr> rs_statusCode = 302,
         rs_headers = [(''location'', ''http://elsewhere.example/'')], rs_body = [] \<rparr>
   \<and> withinSameDomain (localResolve ''http://elsewhere.example/'') (localResolve ''/loop'') = Inr False
   \<and> runCheck (awayServer 10) localResolve
         \<lparr> c_url = ''/loop'', c_headers = checkHeaders None, c_timeout = 3000,
           c_redirects = None \<rparr> []
       = (Rejected (Error ''too many redirects'' None), replicate 10 loopRequest @ [loopRequest])
   \<and> fst (runCheck (awayServer 10) localResolve
         \<lparr> c_url = ''/loop'', c_headers = checkHeaders None, c_timeout = 3000,
           c_redirects = None \<rparr> [])
       \<noteq> Resolved \<lparr> rs_statusCode = 302,
            rs_headers = [(''location'', ''http://elsewhere.example/'')], rs_body = [] \<rparr>"
proof -
  let ?response = "\<lparr> rs_statusCode = 302,
         rs_headers = [(''location'', ''http://elsewhere.example/'')], rs_body = [] \<rparr>"
  let ?last = "\<lparr> c_url = ''/loop'', c_headers = checkHeaders None, c_timeout = 3000,
      c_redirects = Some 10 \<rparr>"
  have 1: "followChain (awayServer 10) localResolve (checkHeaders None) 10 ''/loop'' []
     = Some (''/loop'', replicate 10 loopRequest)"
    using followChain_awayServer [of "[]" 10 10] by simp
  have 2: "awayServer 10 (replicate 10 loopRequest) loopRequest = OnResponse ?response"
    by (simp add: awayServer_def)
  have "runCheck (awayServer 10) localResolve ?last (replicate 10 loopRequest)
      = (Rejected (Error ''too many redirects'' None), replicate 10 loopRequest @ [loopRequest])"
    using runCheck_too_many [of localResolve ?last loopRequest "awayServer 10"
        "replicate 10 loopRequest" ?response] 2 mkRequest_loop
    by (simp add: isRedirect_iff MAX_REDIRECT_COUNT_def)
  then have 3: "runCheck (awayServer 10) localResolve
         \<lparr> c_url = ''/loop'', c_headers = checkHeaders None, c_timeout = 3000,
           c_redirects = None \<rparr> []
       = (Rejected (Error ''too many redirects'' None), replicate 10 loopRequest @ [loopRequest])"
    using runCheck_top_chain [of "awayServer 10" localResolve "checkHeaders None" 10 "''/loop''"
        "''/loop''" "replicate 10 loopRequest" 3000 "Rejected (Error ''too many redirects'' None)"
        "replicate 10 loopRequest @ [loopRequest]"] 1
    by (simp add: MAX_REDIRECT_COUNT_def)
  show ?thesis using 1 2 3 mkRequest_loop elsewhere_loop by simp
qed









subsection \<open>The orchestrator\<close>

lemma Outcome_reason_cases:
  "Outcome ext args = Inr out \<Longrightarrow>
   o_reason out \<in> {None, Some ''timeout'', Some ''error'', Some ''statusCode'', Some ''body''}"
  by (auto simp: Outcome_def Let_def split: option.splits if_splits sum.splits)

lemma Outcome_url: "Outcome ext args = Inr out \<Longrightarrow> o_url out = a_url args"
  by (auto simp: Outcome_def Let_def split: option.splits if_splits sum.splits)

lemma truthy_reason:
  "o_reason out \<in> {None, Some ''timeout'', Some ''error'', Some ''statusCode'', Some ''body''}
   \<Longrightarrow> truthy_str (o_reason out) \<longleftrightarrow> o_reason out \<noteq> None"
  by auto

lemma checkOne_Outcome:
  "checkOne ext resolver timeout requestID env clock check = Resolved out
   \<Longrightarrow> \<exists>args. Outcome ext args = Inr out \<and> a_url args = fst check"
  unfolding checkOne_def Let_def
  by (cases "fst (runCheck (env (fst check)) resolver
        \<lparr> c_url = fst check, c_headers = checkHeaders requestID, c_timeout = timeout,
          c_redirects = None \<rparr> [])")
     (auto split: sum.splits)

lemma checkOne_total:
  assumes "u_protocol (resolver (fst check)) \<noteq> None"
  shows "\<exists>out. checkOne ext resolver timeout requestID env clock check = Resolved out"
proof -
  let ?probe = "fst (runCheck (env (fst check)) resolver
        \<lparr> c_url = fst check, c_headers = checkHeaders requestID, c_timeout = timeout,
          c_redirects = None \<rparr> [])"
  from assms have "\<forall>e. mkRequest (resolver (fst check)) (checkHeaders requestID) \<noteq> Inl e"
    by (auto simp: mkRequest_def)
  then have nt: "\<forall>e. ?probe \<noteq> Threw e"
    by (simp add: runCheck_Threw_iff)
  show ?thesis
  proof (cases ?probe)
    case (Threw e)
    with nt show ?thesis by simp
  next
    case (Rejected e)
    then show ?thesis
      using checkOne_Rejected [of env "fst check" resolver requestID timeout e ext clock "snd check"]
      by auto
  next
    case (Resolved response)
    then show ?thesis
      using checkOne_Resolved [of env "fst check" resolver requestID timeout response ext clock "snd check"]
      by auto
  qed
qed

lemma checkOne_not_Rejected:
  "checkOne ext resolver timeout requestID env clock check \<noteq> Rejected e"
proof (cases "fst (runCheck (env (fst check)) resolver
        \<lparr> c_url = fst check, c_headers = checkHeaders requestID, c_timeout = timeout,
          c_redirects = None \<rparr> [])")
  case (Threw e')
  then show ?thesis by (simp add: checkOne_def Let_def)
next
  case (Rejected e')
  then show ?thesis
    using checkOne_Rejected [of env "fst check" resolver requestID timeout e' ext clock "snd check"]
    by auto
next
  case (Resolved response)
  then show ?thesis
    using checkOne_Resolved [of env "fst check" resolver requestID timeout response ext clock "snd check"]
    by auto
qed

lemma checkOne_Threw:
  "checkOne ext resolver timeout requestID env clock check = Threw e
   \<Longrightarrow> e = TypeError ''Cannot read property replace of null''"
proof -
  assume a: "checkOne ext resolver timeout requestID env clock check = Threw e"
  let ?probe = "fst (runCheck (env (fst check)) resolver
        \<lparr> c_url = fst check, c_headers = checkHeaders requestID, c_timeout = timeout,
          c_redirects = None \<rparr> [])"
  have "?probe = Threw e"
    using a unfolding checkOne_def Let_def by (cases ?probe) (auto split: sum.splits)
  then have "mkRequest (resolver (fst check)) (checkHeaders requestID) = Inl e"
    by (simp add: runCheck_Threw_iff)
  then show ?thesis by (auto simp: mkRequest_def split: option.splits)
qed

lemma mapAll_Resolved:
  "mapAll cs = Resolved vs \<longleftrightarrow> cs = map Resolved vs"
proof (induction cs arbitrary: vs)
  case Nil
  show ?case by auto
next
  case (Cons c cs)
  show ?case
  proof (cases c)
    case (Threw e)
    then show ?thesis by auto
  next
    case (Rejected e)
    then show ?thesis by (auto split: completion.splits)
  next
    case (Resolved v)
    then show ?thesis using Cons by (cases "mapAll cs") (auto simp: Cons_eq_map_conv)
  qed
qed

lemma mapAll_Rejected:
  "mapAll cs = Rejected e \<Longrightarrow> \<exists>c \<in> set cs. \<exists>e'. c = Rejected e'"
proof (induction cs)
  case Nil
  then show ?case by simp
next
  case (Cons c cs)
  then show ?case by (cases c) (auto split: completion.splits)
qed

lemma mapAll_Threw:
  "mapAll cs = Threw e \<Longrightarrow> Threw e \<in> set cs"
proof (induction cs)
  case Nil
  then show ?case by simp
next
  case (Cons c cs)
  then show ?case by (cases c) (auto split: completion.splits)
qed

lemma map_Resolved_ex:
  "(\<forall>x \<in> set xs. \<exists>y. f x = Resolved y) \<Longrightarrow> \<exists>ys. map f xs = map Resolved ys"
proof (induction xs)
  case Nil
  show ?case by simp
next
  case (Cons x xs)
  then obtain y ys where "f x = Resolved y" "map f xs = map Resolved ys" by auto
  then have "map f (x # xs) = map Resolved (y # ys)" by simp
  then show ?case by blast
qed

lemma checkFunction_Resolved:
  assumes "checkFunction ext checks timeout url requestID env clock = Resolved (passed, failed)"
  shows "\<exists>outcomes.
     map (checkOne ext (loopbackResolve ext (u_protocol (URL_parse ext url))
            (u_hostname (URL_parse ext url)) (u_port (URL_parse ext url)))
          timeout requestID env clock) checks = map Resolved outcomes
     \<and> passed = filter (\<lambda>outcome. \<not> truthy_str (o_reason outcome)) outcomes
     \<and> failed = filter (\<lambda>outcome. truthy_str (o_reason outcome)) outcomes"
proof -
  let ?all = "map (checkOne ext (loopbackResolve ext (u_protocol (URL_parse ext url))
            (u_hostname (URL_parse ext url)) (u_port (URL_parse ext url)))
          timeout requestID env clock) checks"
  from assms obtain outcomes where m: "mapAll ?all = Resolved outcomes"
    and "passed = filter (\<lambda>outcome. \<not> truthy_str (o_reason outcome)) outcomes"
    and "failed = filter (\<lambda>outcome. truthy_str (o_reason outcome)) outcomes"
    unfolding checkFunction_def Let_def by (cases "mapAll ?all") auto
  moreover from m have "?all = map Resolved outcomes" by (simp add: mapAll_Resolved)
  ultimately show ?thesis by blast
qed

lemma outcomes_of_checks:
  assumes "map (checkOne ext resolver timeout requestID env clock) checks = map Resolved outcomes"
  shows "map o_url outcomes = map fst checks
     \<and> (\<forall>out \<in> set outcomes.
          o_reason out \<in> {None, Some ''timeout'', Some ''error'', Some ''statusCode'', Some ''body''})"
  using assms
proof (induction checks arbitrary: outcomes)
  case Nil
  then show ?case by simp
next
  case (Cons check checks)
  then obtain out rest where o: "outcomes = out # rest"
    and c: "checkOne ext resolver timeout requestID env clock check = Resolved out"
    and r: "map (checkOne ext resolver timeout requestID env clock) checks = map Resolved rest"
    by (auto simp: Cons_eq_map_conv)
  from c obtain args where "Outcome ext args = Inr out" "a_url args = fst check"
    using checkOne_Outcome by blast
  then have "o_url out = fst check"
    "o_reason out \<in> {None, Some ''timeout'', Some ''error'', Some ''statusCode'', Some ''body''}"
    using Outcome_url Outcome_reason_cases by auto
  then show ?case using Cons.IH [OF r] o by simp
qed


lemma sortBy_compareProperty: "sortBy (compareProperty f) xs = sort_key f xs"
proof -
  have "insertBy (compareProperty f) x ys = insort_key f x ys" for x ys
    by (induction ys) (auto simp: compareProperty_def)
  then have "insertBy (compareProperty f) = insort_key f" by (intro ext)
  then show ?thesis by (simp add: sortBy_def sort_key_def)
qed

lemma sort_key_unique:
  assumes "set xs = set ys" "distinct (map f xs)" "distinct (map f ys)"
  shows "sort_key f xs = sort_key f ys"
proof -
  have "map f (sort_key f xs) = map f (sort_key f ys)"
  proof (rule sorted_distinct_set_unique)
    show "sorted (map f (sort_key f xs))" "sorted (map f (sort_key f ys))" by simp_all
    show "distinct (map f (sort_key f xs))" using assms(2) by (simp add: distinct_map)
    show "distinct (map f (sort_key f ys))" using assms(3) by (simp add: distinct_map)
    show "set (map f (sort_key f xs)) = set (map f (sort_key f ys))" using assms(1) by simp
  qed
  moreover have "inj_on f (set (sort_key f xs) \<union> set (sort_key f ys))"
    using assms by (simp add: distinct_map)
  ultimately show ?thesis by (rule map_inj_on)
qed

lemma runCheck_loop_result:
  "runCheck loopServer localResolve
     \<lparr> c_url = ''/loop'', c_headers = checkHeaders None, c_timeout = 3000, c_redirects = None \<rparr> []
   = (Rejected (Error ''too many redirects'' None), replicate 10 loopRequest @ [loopRequest])"
proof -
  let ?response = "\<lparr> rs_statusCode = 302, rs_headers = [(''location'', ''/loop'')], rs_body = [] \<rparr>"
  let ?last = "\<lparr> c_url = ''/loop'', c_headers = checkHeaders None, c_timeout = 3000,
      c_redirects = Some 10 \<rparr>"
  have 1: "followChain loopServer localResolve (checkHeaders None) 10 ''/loop'' []
      = Some (''/loop'', replicate 10 loopRequest)"
    using followChain_loopServer [of 10 "[]"] by simp
  have 2: "loopServer (replicate 10 loopRequest) loopRequest = OnResponse ?response"
    by (simp add: loopServer_def)
  have "runCheck loopServer localResolve ?last (replicate 10 loopRequest)
      = (Rejected (Error ''too many redirects'' None), replicate 10 loopRequest @ [loopRequest])"
    using runCheck_too_many [of localResolve ?last loopRequest loopServer
        "replicate 10 loopRequest" ?response] 2 mkRequest_loop
    by (simp add: isRedirect_iff MAX_REDIRECT_COUNT_def)
  then show ?thesis
    using runCheck_top_chain [of loopServer localResolve "checkHeaders None" 10 "''/loop''"
        "''/loop''" "replicate 10 loopRequest" 3000 "Rejected (Error ''too many redirects'' None)"
        "replicate 10 loopRequest @ [loopRequest]"] 1
    by (simp add: MAX_REDIRECT_COUNT_def)
qed

lemma runCheck_login_result:
  "runCheck loginServer localResolve
     \<lparr> c_url = ''/login'', c_headers = checkHeaders None, c_timeout = 3000, c_redirects = None \<rparr> []
   = (Resolved \<lparr> rs_statusCode = 200, rs_headers = [], rs_body = ''Please log in'' \<rparr>,
      [probeRequest ''/login'' ''localhost'', probeRequest ''/login'' ''localhost''])"
proof -
  let ?first = "\<lparr> c_url = ''/login'', c_headers = checkHeaders None,
           c_timeout = 3000, c_redirects = None \<rparr>"
  let ?second = "\<lparr> c_url = ''/login'', c_headers = checkHeaders None,
           c_timeout = 3000, c_redirects = Some (0 + 1) \<rparr>"
  let ?redirect = "\<lparr> rs_statusCode = 302, rs_headers = [(''location'', ''/login'')], rs_body = [] \<rparr>"
  let ?page = "\<lparr> rs_statusCode = 200, rs_headers = [], rs_body = ''Please log in'' \<rparr>"
  have 1: "loginServer [] (probeRequest ''/login'' ''localhost'') = OnResponse ?redirect"
    by (simp add: loginServer_def)
  have 2: "loginServer ([] @ [probeRequest ''/login'' ''localhost''])
      (probeRequest ''/login'' ''localhost'') = OnResponse ?page"
    by (simp add: loginServer_def)
  have 3: "onRedirect localResolve (localResolve ''/login'') 0 ?redirect = Follow ''/login''"
    by (simp add: onRedirect_def withinSameDomain_def MAX_REDIRECT_COUNT_def)
  have 4: "runCheck loginServer localResolve ?second ([] @ [probeRequest ''/login'' ''localhost''])
      = (Resolved ?page, ([] @ [probeRequest ''/login'' ''localhost''])
           @ [probeRequest ''/login'' ''localhost''])"
    using runCheck_plain [of localResolve ?second "probeRequest ''/login'' ''localhost''" loginServer
        "[] @ [probeRequest ''/login'' ''localhost'']" ?page] 2 mkRequest_login
    by (simp add: isRedirect_iff)
  show ?thesis
    using runCheck_follow [of localResolve ?first "probeRequest ''/login'' ''localhost''"
        loginServer "[]" ?redirect "''/login''"] 1 3 4 mkRequest_login
    by (simp add: isRedirect_iff)
qed

lemma checkOne_loop:
  "checkOne node localResolve 3000 None sampleEnv sampleClock (''/loop'', []) = Resolved loopOutcome"
  by (simp add: checkOne_def sampleEnv_def sampleClock_def runCheck_loop_result Outcome_def
      node_def loopOutcome_def)

lemma checkOne_login:
  "checkOne node localResolve 3000 None sampleEnv sampleClock (''/login'', [''log in''])
     = Resolved loginOutcome"
  by (simp add: checkOne_def sampleEnv_def sampleClock_def runCheck_login_result Outcome_def
      allMatching_Some sublist_code node_def loginOutcome_def)

lemma checkFunction_sample:
  "checkFunction node [(''/loop'', []), (''/login'', [''log in''])] 3000 ''http://127.0.0.1:5000''
     None sampleEnv sampleClock = Resolved ([loginOutcome], [loopOutcome])"
proof -
  have "loopbackResolve node (u_protocol (URL_parse node ''http://127.0.0.1:5000''))
      (u_hostname (URL_parse node ''http://127.0.0.1:5000''))
      (u_port (URL_parse node ''http://127.0.0.1:5000'')) = localResolve"
    by (simp add: localResolve_def node_def)
  then show ?thesis
    by (simp add: checkFunction_def checkOne_loop checkOne_login loopOutcome_def loginOutcome_def)
qed

subsection \<open>The classifier\<close>




subsection \<open>The two lists of a run\<close>

text \<open>
  Claim C5. When every check URL of the registry resolves to a URL with a protocol (so
  that no request fails to be built), \<^const>\<open>checkFunction\<close> resolves with two lists
  made of one Outcome per check of the registry, in the order of the registry: passed
  holds exactly the Outcomes without a reason, failed exactly those with one of the four
  failure reasons; no Outcome is in both lists, every Outcome is in one of them, and the
  two lengths add up to the number of checks.
\<close>

theorem partitions_disjoint_complete:
  assumes "\<forall>check \<in> set checks.
      u_protocol (loopbackResolve ext (u_protocol (URL_parse ext url))
        (u_hostname (URL_parse ext url)) (u_port (URL_parse ext url)) (fst check)) \<noteq> None"
  shows "\<exists>outcomes passed failed.
      checkFunction ext checks timeout url requestID env clock = Resolved (passed, failed)
      \<and> map o_url outcomes = map fst checks
      \<and> passed = filter (\<lambda>outcome. o_reason outcome = None) outcomes
      \<and> failed = filter (\<lambda>outcome. o_reason outcome \<noteq> None) outcomes
      \<and> (\<forall>outcome \<in> set failed. o_reason outcome
            \<in> {Some ''timeout'', Some ''error'', Some ''statusCode'', Some ''body''})
      \<and> set passed \<inter> set failed = {}
      \<and> set passed \<union> set failed = set outcomes
      \<and> length passed + length failed = length checks"
proof -
  let ?res = "loopbackResolve ext (u_protocol (URL_parse ext url))
        (u_hostname (URL_parse ext url)) (u_port (URL_parse ext url))"
  let ?one = "checkOne ext ?res timeout requestID env clock"
  from assms have "\<forall>check \<in> set checks. \<exists>out. ?one check = Resolved out"
    using checkOne_total [of ?res _ ext timeout requestID env clock] by blast
  then obtain outcomes where all: "map ?one checks = map Resolved outcomes"
    using map_Resolved_ex [of checks ?one] by blast
  then have urls: "map o_url outcomes = map fst checks"
    and reasons: "\<forall>out \<in> set outcomes.
          o_reason out \<in> {None, Some ''timeout'', Some ''error'', Some ''statusCode'', Some ''body''}"
    using outcomes_of_checks [of ext ?res timeout requestID env clock checks outcomes] by simp_all
  from reasons have t: "\<forall>out \<in> set outcomes. truthy_str (o_reason out) \<longleftrightarrow> o_reason out \<noteq> None"
    using truthy_reason by blast
  let ?passed = "filter (\<lambda>outcome. o_reason outcome = None) outcomes"
  let ?failed = "filter (\<lambda>outcome. o_reason outcome \<noteq> None) outcomes"
  have p: "filter (\<lambda>outcome. \<not> truthy_str (o_reason outcome)) outcomes = ?passed"
    using t by (intro filter_cong) auto
  have f: "filter (\<lambda>outcome. truthy_str (o_reason outcome)) outcomes = ?failed"
    using t by (intro filter_cong) auto
  have run: "checkFunction ext checks timeout url requestID env clock = Resolved (?passed, ?failed)"
    using all p f by (simp add: checkFunction_def Let_def mapAll_Resolved [THEN iffD2])
  have len: "length ?passed + length ?failed = length checks"
    using sum_length_filter_compl [of "\<lambda>outcome. o_reason outcome = None" outcomes]
      arg_cong [OF urls, of length]
    by simp
  have four: "\<forall>outcome \<in> set ?failed. o_reason outcome
            \<in> {Some ''timeout'', Some ''error'', Some ''statusCode'', Some ''body''}"
    using reasons by auto
  have sets: "set ?passed \<inter> set ?failed = {}" "set ?passed \<union> set ?failed = set outcomes"
    by auto
  show ?thesis
    using run urls len four sets by blast
qed


theorem partitions_disjoint_complete_witness:
  "u_protocol (loopbackResolve node (u_protocol (URL_parse node ''http://127.0.0.1:5000''))
        (u_hostname (URL_parse node ''http://127.0.0.1:5000''))
        (u_port (URL_parse node ''http://127.0.0.1:5000'')) ''/loop'') = Some ''http:''
   \<and> u_protocol (loopbackResolve node (u_protocol (URL_parse node ''http://127.0.0.1:5000''))
        (u_hostname (URL_parse node ''http://127.0.0.1:5000''))
        (u_port (URL_parse node ''http://127.0.0.1:5000'')) ''/login'') = Some ''http:''
   \<and> checkFunction node [(''/loop'', []), (''/login'', [''log in''])] 3000 ''http://127.0.0.1:5000''
        None sampleEnv sampleClock = Resolved ([loginOutcome], [loopOutcome])
   \<and> set [loginOutcome] \<inter> set [loopOutcome] = {}
   \<and> length [loginOutcome] + length [loopOutcome]
       = length [(''/loop'', [] :: string list), (''/login'', [''log in''])]"
proof -
  have r: "loopbackResolve node (u_protocol (URL_parse node ''http://127.0.0.1:5000''))
      (u_hostname (URL_parse node ''http://127.0.0.1:5000''))
      (u_port (URL_parse node ''http://127.0.0.1:5000'')) = localResolve"
    by (simp add: localResolve_def node_def)
  show ?thesis
    using partitions_disjoint_complete [of "[(''/loop'', []), (''/login'', [''log in''])]" node
        "''http://127.0.0.1:5000''" 3000 None sampleEnv sampleClock] checkFunction_sample
    by (simp add: r localResolve_loop localResolve_login loopOutcome_def loginOutcome_def)
qed

lemma propertyNames_reason:
  "''reason'' \<in> set (propertyNames out) \<longleftrightarrow> o_reason out \<noteq> None"
  by (simp add: propertyNames_def)

lemma Outcome_passes_iff:
  "Outcome ext args = Inr out \<Longrightarrow>
   o_reason out = None \<longleftrightarrow>
     a_error args = None
     \<and> \<not> (case a_statusCode args of None \<Rightarrow> False | Some sc \<Rightarrow> sc < 200 \<or> sc \<ge> 400)
     \<and> allMatching (a_body args) (a_expected args) = Inr True"
  by (auto simp: Outcome_def Let_def split: option.splits if_splits sum.splits)

text \<open>
  Claim C10. An Outcome that the constructor returns has no reason exactly when there
  was no error, the status code is not below 200 or at least 400, and every expected
  text occurs in the body; otherwise its reason is one of four non-empty strings, so
  that the reason is truthy exactly when it is present, and the property
  \<^verbatim>\<open>reason\<close> is among the properties of the object exactly then. \<^const>\<open>checkFunction\<close>
  puts into passed exactly the Outcomes without a reason and into failed exactly those
  with one, and no Outcome of the passed list of a JSON report has the key
  \<^verbatim>\<open>reason\<close>.
\<close>

theorem reason_set_iff_failed:
  "(Outcome ext args = Inr out \<longrightarrow>
      o_reason out \<in> {None, Some ''timeout'', Some ''error'', Some ''statusCode'', Some ''body''}
      \<and> (o_reason out = None \<longleftrightarrow>
            a_error args = None
            \<and> (case a_statusCode args of None \<Rightarrow> True | Some sc \<Rightarrow> 200 \<le> sc \<and> sc < 400)
            \<and> allMatching (a_body args) (a_expected args) = Inr True)
      \<and> (truthy_str (o_reason out) \<longleftrightarrow> o_reason out \<noteq> None)
      \<and> (''reason'' \<in> set (propertyNames out) \<longleftrightarrow> o_reason out \<noteq> None))
   \<and> (checkFunction ext checks timeout url requestID env clock = Resolved (passed, failed) \<longrightarrow>
      (\<exists>outcomes. map o_url outcomes = map fst checks
         \<and> passed = filter (\<lambda>outcome. o_reason outcome = None) outcomes
         \<and> failed = filter (\<lambda>outcome. o_reason outcome \<noteq> None) outcomes)
      \<and> (\<forall>outcome \<in> set passed. o_reason outcome = None
            \<and> ''reason'' \<notin> set (propertyNames outcome))
      \<and> (\<forall>outcome \<in> set failed. \<exists>r. o_reason outcome = Some r \<and> r \<noteq> [])
      \<and> (\<forall>outcome \<in> set (rr_passed (respond True (passed, failed))).
            ''reason'' \<notin> set (propertyNames outcome)))"
proof (intro conjI impI)
  assume o: "Outcome ext args = Inr out"
  then show r: "o_reason out \<in> {None, Some ''timeout'', Some ''error'', Some ''statusCode'', Some ''body''}"
    by (rule Outcome_reason_cases)
  show "o_reason out = None \<longleftrightarrow>
            a_error args = None
            \<and> (case a_statusCode args of None \<Rightarrow> True | Some sc \<Rightarrow> 200 \<le> sc \<and> sc < 400)
            \<and> allMatching (a_body args) (a_expected args) = Inr True"
    using Outcome_passes_iff [OF o] by (auto split: option.splits)
  show "truthy_str (o_reason out) \<longleftrightarrow> o_reason out \<noteq> None"
    using r by (rule truthy_reason)
  show "''reason'' \<in> set (propertyNames out) \<longleftrightarrow> o_reason out \<noteq> None"
    by (rule propertyNames_reason)
next
  let ?res = "loopbackResolve ext (u_protocol (URL_parse ext url))
        (u_hostname (URL_parse ext url)) (u_port (URL_parse ext url))"
  assume "checkFunction ext checks timeout url requestID env clock = Resolved (passed, failed)"
  then obtain outcomes where all: "map (checkOne ext ?res timeout requestID env clock) checks
        = map Resolved outcomes"
    and p: "passed = filter (\<lambda>outcome. \<not> truthy_str (o_reason outcome)) outcomes"
    and f: "failed = filter (\<lambda>outcome. truthy_str (o_reason outcome)) outcomes"
    using checkFunction_Resolved by blast
  from all have urls: "map o_url outcomes = map fst checks"
    and reasons: "\<forall>out \<in> set outcomes.
          o_reason out \<in> {None, Some ''timeout'', Some ''error'', Some ''statusCode'', Some ''body''}"
    using outcomes_of_checks [of ext ?res timeout requestID env clock checks outcomes] by simp_all
  from reasons have t: "\<forall>out \<in> set outcomes. truthy_str (o_reason out) \<longleftrightarrow> o_reason out \<noteq> None"
    using truthy_reason by blast
  have p': "passed = filter (\<lambda>outcome. o_reason outcome = None) outcomes"
    unfolding p using t by (intro filter_cong) auto
  have f': "failed = filter (\<lambda>outcome. o_reason outcome \<noteq> None) outcomes"
    unfolding f using t by (intro filter_cong) auto
  show "\<exists>outcomes. map o_url outcomes = map fst checks
         \<and> passed = filter (\<lambda>outcome. o_reason outcome = None) outcomes
         \<and> failed = filter (\<lambda>outcome. o_reason outcome \<noteq> None) outcomes"
    using urls p' f' by blast
  show "\<forall>outcome \<in> set passed. o_reason outcome = None \<and> ''reason'' \<notin> set (propertyNames outcome)"
    using p' by (simp add: propertyNames_reason)
  show "\<forall>outcome \<in> set failed. \<exists>r. o_reason outcome = Some r \<and> r \<noteq> []"
    using f' reasons by auto
  show "\<forall>outcome \<in> set (rr_passed (respond True (passed, failed))).
            ''reason'' \<notin> set (propertyNames outcome)"
    using p' by (auto simp: respond_def Let_def removeBodyProp_def sortBy_compareProperty
        propertyNames_reason)
qed

theorem reason_set_iff_failed_witness:
  "Outcome node \<lparr> a_url = ''/login'', a_elapsed = (0, 1000000), a_expected = [''log in''],
       a_error = None, a_statusCode = Some 200, a_body = Some ''Please log in'' \<rparr> = Inr loginOutcome
   \<and> o_reason loginOutcome = None
   \<and> ''reason'' \<notin> set (propertyNames loginOutcome)
   \<and> checkFunction node [(''/loop'', []), (''/login'', [''log in''])] 3000 ''http://127.0.0.1:5000''
        None sampleEnv sampleClock = Resolved ([loginOutcome], [loopOutcome])
   \<and> o_reason loopOutcome = Some ''error''
   \<and> ''reason'' \<in> set (propertyNames loopOutcome)
   \<and> rr_passed (respond True ([loginOutcome], [loopOutcome])) = [loginOutcome\<lparr> o_body := None \<rparr>]"
proof -
  have 1: "Outcome node \<lparr> a_url = ''/login'', a_elapsed = (0, 1000000), a_expected = [''log in''],
       a_error = None, a_statusCode = Some 200, a_body = Some ''Please log in'' \<rparr> = Inr loginOutcome"
    by (simp add: Outcome_def allMatching_Some sublist_code node_def loginOutcome_def)
  have 2: "rr_passed (respond True ([loginOutcome], [loopOutcome])) = [loginOutcome\<lparr> o_body := None \<rparr>]"
    by (simp add: respond_def sortBy_def removeBodyProp_def)
  show ?thesis
    using reason_set_iff_failed [of node "\<lparr> a_url = ''/login'', a_elapsed = (0, 1000000),
          a_expected = [''log in''], a_error = None, a_statusCode = Some 200,
          a_body = Some ''Please log in'' \<rparr>" loginOutcome
        "[(''/loop'', []), (''/login'', [''log in''])]" 3000 "''http://127.0.0.1:5000''" None
        sampleEnv sampleClock "[loginOutcome]" "[loopOutcome]"]
      1 2 checkFunction_sample
    by (simp add: loopOutcome_def loginOutcome_def propertyNames_def)
qed

lemma map_url_removeBodyProp: "map o_url (removeBodyProp xs) = map o_url xs"
  by (simp add: removeBodyProp_def)

lemma respond_sorted:
  "sorted (map o_url (rr_passed (respond useJSON outcomes)))
   \<and> sorted (map o_url (rr_failed (respond useJSON outcomes)))"
  by (simp add: respond_def Let_def map_url_removeBodyProp sortBy_compareProperty)

text \<open>
  Claim C8. In the report that the handler writes, the passed list and the failed list
  are sorted by \<^verbatim>\<open>url\<close> in ascending lexicographic order. Two pairs of lists with
  the same sets of Outcomes, in any order, give the same report, the URLs within a list
  being distinct as the keys of a registry are.
\<close>

theorem report_sorted_by_url:
  "sorted (map o_url (rr_passed (respond useJSON (passed, failed))))
   \<and> sorted (map o_url (rr_failed (respond useJSON (passed, failed))))
   \<and> (handler ext checks timeout useJSON url requestID env clock = Resolved report
      \<longrightarrow> sorted (map o_url (rr_passed report)) \<and> sorted (map o_url (rr_failed report)))
   \<and> (set passed' = set passed \<and> set failed' = set failed
        \<and> distinct (map o_url passed) \<and> distinct (map o_url passed')
        \<and> distinct (map o_url failed) \<and> distinct (map o_url failed')
      \<longrightarrow> respond useJSON (passed', failed') = respond useJSON (passed, failed))"
proof (intro conjI impI)
  show "sorted (map o_url (rr_passed (respond useJSON (passed, failed))))"
    "sorted (map o_url (rr_failed (respond useJSON (passed, failed))))"
    using respond_sorted [of useJSON "(passed, failed)"] by simp_all
next
  assume "handler ext checks timeout useJSON url requestID env clock = Resolved report"
  then obtain outcomes where "report = respond useJSON outcomes"
    unfolding handler_def
    by (cases "checkFunction ext checks timeout url requestID env clock") auto
  then show "sorted (map o_url (rr_passed report))" "sorted (map o_url (rr_failed report))"
    using respond_sorted [of useJSON outcomes] by simp_all
next
  assume a: "set passed' = set passed \<and> set failed' = set failed
        \<and> distinct (map o_url passed) \<and> distinct (map o_url passed')
        \<and> distinct (map o_url failed) \<and> distinct (map o_url failed')"
  then have "sort_key o_url passed' = sort_key o_url passed"
    "sort_key o_url failed' = sort_key o_url failed"
    using sort_key_unique [of passed' passed o_url] sort_key_unique [of failed' failed o_url]
    by simp_all
  then show "respond useJSON (passed', failed') = respond useJSON (passed, failed)"
    by (simp add: respond_def sortBy_compareProperty)
qed

theorem report_sorted_by_url_witness:
  "set [loopOutcome, loopOutcome\<lparr> o_url := ''/about'' \<rparr>]
     = set [loopOutcome\<lparr> o_url := ''/about'' \<rparr>, loopOutcome]
   \<and> distinct (map o_url [loopOutcome, loopOutcome\<lparr> o_url := ''/about'' \<rparr>])
   \<and> distinct (map o_url [loopOutcome\<lparr> o_url := ''/about'' \<rparr>, loopOutcome])
   \<and> respond False ([loginOutcome], [loopOutcome, loopOutcome\<lparr> o_url := ''/about'' \<rparr>])
     = respond False ([loginOutcome], [loopOutcome\<lparr> o_url := ''/about'' \<rparr>, loopOutcome])
   \<and> rr_failed (respond False ([loginOutcome], [loopOutcome, loopOutcome\<lparr> o_url := ''/about'' \<rparr>]))
     = [loopOutcome\<lparr> o_url := ''/about'' \<rparr>, loopOutcome]
   \<and> sorted [''/about'', ''/loop'']"
proof -
  have 1: "rr_failed (respond False ([loginOutcome], [loopOutcome, loopOutcome\<lparr> o_url := ''/about'' \<rparr>]))
     = [loopOutcome\<lparr> o_url := ''/about'' \<rparr>, loopOutcome]"
    by (simp add: respond_def Let_def sortBy_def compareProperty_def loopOutcome_def)
  show ?thesis
    using report_sorted_by_url [of False "[loginOutcome]"
        "[loopOutcome\<lparr> o_url := ''/about'' \<rparr>, loopOutcome]" node "[]" 3000
        "''http://127.0.0.1:5000''" None sampleEnv sampleClock
        "respond False ([], [])" "[loginOutcome]" "[loopOutcome, loopOutcome\<lparr> o_url := ''/about'' \<rparr>]"]
      1
    by (auto simp: loopOutcome_def)
qed

subsection \<open>The checks file\<close>

lemma trim_hd: "trim s \<noteq> [] \<Longrightarrow> \<not> isSpace (hd (trim s))"
proof -
  assume ne: "trim s \<noteq> []"
  let ?t = "dropWhile isSpace s"
  have "rev (rev ?t) = rev (takeWhile isSpace (rev ?t) @ dropWhile isSpace (rev ?t))"
    by (simp only: takeWhile_dropWhile_id)
  then have "?t = rev (dropWhile isSpace (rev ?t)) @ rev (takeWhile isSpace (rev ?t))"
    by (simp only: rev_append rev_rev_ident)
  then have t: "?t = trim s @ rev (takeWhile isSpace (rev ?t))"
    by (simp only: trim_def)
  with ne have "?t \<noteq> []" by (metis append_is_Nil_conv)
  then have "\<not> isSpace (hd ?t)" by (rule hd_dropWhile)
  moreover have "hd ?t = hd (trim s)" using t ne by (metis hd_append2)
  ultimately show ?thesis by simp
qed

lemma checkLines_trimmed:
  "line \<in> set (checkLines content) \<Longrightarrow> line \<noteq> [] \<and> \<not> isSpace (hd line)"
  by (auto simp: checkLines_def trim_hd)

lemma checkLines_match:
  "line \<in> set (checkLines content) \<Longrightarrow> \<exists>u x. matchLine line = Some (u, x)"
proof -
  assume "line \<in> set (checkLines content)"
  then have "line \<noteq> []" "\<not> isSpace (hd line)" using checkLines_trimmed by auto
  then have "takeWhile (\<lambda>c. \<not> isSpace c) line \<noteq> []" by (simp add: takeWhile_eq_Nil_iff)
  then show ?thesis by (simp add: matchLine_def Let_def)
qed

lemma mapThrow_Inr:
  "mapThrow f xs = Inr ys \<longleftrightarrow> list_all2 (\<lambda>x y. f x = Inr y) xs ys"
proof (induction xs arbitrary: ys)
  case Nil
  show ?case by auto
next
  case (Cons x xs)
  show ?case
  proof (cases "f x")
    case (Inl e)
    then show ?thesis by (simp add: list_all2_Cons1)
  next
    case fx: (Inr y)
    show ?thesis
    proof (cases "mapThrow f xs")
      case (Inl e)
      then have "\<not> list_all2 (\<lambda>x y. f x = Inr y) xs zs" for zs
        using Cons [of zs] by simp
      then show ?thesis using fx Inl by (simp add: list_all2_Cons1)
    next
      case (Inr rest)
      then have "list_all2 (\<lambda>x y. f x = Inr y) xs zs \<longleftrightarrow> zs = rest" for zs
        using Cons [of zs] by auto
      then show ?thesis using fx Inr by (auto simp: list_all2_Cons1)
    qed
  qed
qed

lemma mapThrow_Inl:
  "mapThrow f xs = Inl e \<Longrightarrow> \<exists>x \<in> set xs. f x = Inl e"
proof (induction xs)
  case Nil
  then show ?case by simp
next
  case (Cons x xs)
  then show ?case by (cases "f x"; cases "mapThrow f xs") auto
qed

lemma mapThrow_total:
  "(\<forall>x \<in> set xs. \<exists>y. f x = Inr y) \<Longrightarrow> \<exists>ys. mapThrow f xs = Inr ys"
proof (induction xs)
  case Nil
  show ?case by simp
next
  case (Cons x xs)
  then obtain y ys where "f x = Inr y" "mapThrow f xs = Inr ys" by auto
  then show ?case by simp
qed

lemma mapThrow_fails:
  "x \<in> set xs \<Longrightarrow> f x = Inl e \<Longrightarrow> \<exists>e'. mapThrow f xs = Inl e'"
proof (induction xs)
  case Nil
  then show ?case by simp
next
  case (Cons a xs)
  then show ?case by (cases "f a"; cases "mapThrow f xs") auto
qed

lemma toCheck_checkLines:
  "\<exists>parsed. mapThrow toCheck (checkLines content) = Inr parsed
     \<and> list_all2 (\<lambda>line check. matchLine line = Some check) (checkLines content) parsed"
proof -
  have "\<forall>line \<in> set (checkLines content). \<exists>y. toCheck line = Inr y"
    using checkLines_match by (fastforce simp: toCheck_def)
  then obtain parsed where p: "mapThrow toCheck (checkLines content) = Inr parsed"
    using mapThrow_total by blast
  then have "list_all2 (\<lambda>line check. toCheck line = Inr check) (checkLines content) parsed"
    by (simp add: mapThrow_Inr)
  then have "list_all2 (\<lambda>line check. matchLine line = Some check) (checkLines content) parsed"
    by (rule list_all2_mono) (auto simp: toCheck_def split: option.splits)
  with p show ?thesis by blast
qed

lemma validCheck_Inr:
  "validCheck ext check = Inr c \<longleftrightarrow>
     c = check \<and> URL_parse_error ext (fst check) = None
     \<and> absolutePathname (URL_parse ext (fst check)) \<and> httpProtocol (URL_parse ext (fst check))"
  by (cases "URL_parse_error ext (fst check)") (auto simp: validCheck_def Let_def)

lemma validCheck_Inl:
  "validCheck ext check = Inl e \<Longrightarrow>
     URL_parse_error ext (fst check) = Some e
     \<or> (\<not> (absolutePathname (URL_parse ext (fst check)) \<and> httpProtocol (URL_parse ext (fst check)))
        \<and> (e = AssertionError ''Check URL must have absolute pathname''
           \<or> e = AssertionError ''Check URL may only use HTTP/S protocol''))"
  by (cases "URL_parse_error ext (fst check)")
     (auto simp: validCheck_def Let_def split: if_splits)

lemma keys_addCheck:
  "map fst (addCheck memo check)
     = (if fst check \<in> set (map fst memo) then map fst memo else map fst memo @ [fst check])"
proof -
  have m: "map fst (map (\<lambda>(k, v). if k = u then (k, v @ [x]) else (k, v)) xs) = map fst xs"
    for u x and xs :: registry
    by (induction xs) auto
  show ?thesis
  proof (cases "map_of memo (fst check)")
    case None
    then have "fst check \<notin> set (map fst memo)" by (simp add: map_of_eq_None_iff)
    moreover have "map fst (addCheck memo check) = map fst (memo @ [(fst check, [])])"
      unfolding addCheck_def Let_def using None by (simp only: m if_True split: if_splits) simp
    ultimately show ?thesis by simp
  next
    case (Some v)
    then have "fst check \<in> set (map fst memo)"
      using map_of_eq_None_iff [of memo "fst check"] by auto
    moreover have "map fst (addCheck memo check) = map fst memo"
      unfolding addCheck_def Let_def using Some by (simp only: m split: if_splits) simp
    ultimately show ?thesis by simp
  qed
qed

lemma keys_foldl_addCheck:
  "distinct (map fst memo) \<Longrightarrow>
   distinct (map fst (foldl addCheck memo checks))
   \<and> set (map fst (foldl addCheck memo checks)) = set (map fst memo) \<union> set (map fst checks)"
proof (induction checks arbitrary: memo)
  case Nil
  then show ?case by simp
next
  case (Cons check checks)
  have d: "distinct (map fst (addCheck memo check))"
    using Cons.prems by (simp add: keys_addCheck)
  have s: "set (map fst (addCheck memo check)) = insert (fst check) (set (map fst memo))"
    by (auto simp: keys_addCheck)
  show ?case
    using Cons.IH [OF d] s by auto
qed

lemma checkFunction_not_Rejected:
  "checkFunction ext checks timeout url requestID env clock \<noteq> Rejected e"
proof
  let ?all = "map (checkOne ext (loopbackResolve ext (u_protocol (URL_parse ext url))
            (u_hostname (URL_parse ext url)) (u_port (URL_parse ext url)))
          timeout requestID env clock) checks"
  assume "checkFunction ext checks timeout url requestID env clock = Rejected e"
  then have "mapAll ?all = Rejected e"
    unfolding checkFunction_def Let_def by (cases "mapAll ?all") auto
  then obtain c e' where "c \<in> set ?all" "c = Rejected e'"
    using mapAll_Rejected by blast
  then obtain check where "checkOne ext (loopbackResolve ext (u_protocol (URL_parse ext url))
            (u_hostname (URL_parse ext url)) (u_port (URL_parse ext url)))
          timeout requestID env clock check = Rejected e'"
    by auto
  then show False using checkOne_not_Rejected by blast
qed

lemma checkFunction_Threw:
  assumes "checkFunction ext checks timeout url requestID env clock = Threw e"
  shows "e = TypeError ''Cannot read property replace of null''"
proof -
  let ?all = "map (checkOne ext (loopbackResolve ext (u_protocol (URL_parse ext url))
            (u_hostname (URL_parse ext url)) (u_port (URL_parse ext url)))
          timeout requestID env clock) checks"
  from assms have "mapAll ?all = Threw e"
    unfolding checkFunction_def Let_def by (cases "mapAll ?all") auto
  then have "Threw e \<in> set ?all" by (rule mapAll_Threw)
  then show ?thesis using checkOne_Threw by fastforce
qed


lemma list_all2_set1: "list_all2 P xs ys \<Longrightarrow> x \<in> set xs \<Longrightarrow> \<exists>y \<in> set ys. P x y"
  by (induction rule: list_all2_induct) auto

lemma list_all2_set2: "list_all2 P xs ys \<Longrightarrow> y \<in> set ys \<Longrightarrow> \<exists>x \<in> set xs. P x y"
  by (induction rule: list_all2_induct) auto

lemma absolutePathname_iff:
  "absolutePathname p \<longleftrightarrow> (\<exists>rest. u_pathname p = Some (CHR ''/'' # rest))"
  by (auto simp: absolutePathname_def split: option.splits list.splits)

lemma httpProtocol_iff:
  "httpProtocol p \<longleftrightarrow> u_protocol p \<in> {None, Some [], Some ''http:'', Some ''https:''}"
  by (cases "u_protocol p") (auto simp: httpProtocol_def)

lemma readChecks_cases:
  obtains parsed where "mapThrow toCheck (checkLines content) = Inr parsed"
    and "list_all2 (\<lambda>line check. matchLine line = Some check) (checkLines content) parsed"
    and "readChecks ext (Inr content) =
      (case mapThrow (validCheck ext) parsed of
         Inl e \<Rightarrow> Inl e | Inr checks \<Rightarrow> Inr (foldl addCheck [] checks))"
proof -
  obtain parsed where p: "mapThrow toCheck (checkLines content) = Inr parsed"
    and l: "list_all2 (\<lambda>line check. matchLine line = Some check) (checkLines content) parsed"
    using toCheck_checkLines by blast
  from p have "readChecks ext (Inr content) =
      (case mapThrow (validCheck ext) parsed of
         Inl e \<Rightarrow> Inl e | Inr checks \<Rightarrow> Inr (foldl addCheck [] checks))"
    by (simp add: readChecks_def)
  with p l show ?thesis by (rule that)
qed

lemma readChecks_Inl:
  assumes "readChecks ext (Inr content) = Inl e"
  shows "(\<exists>line \<in> set (checkLines content). \<exists>u x. matchLine line = Some (u, x)
            \<and> (URL_parse_error ext u \<noteq> None
               \<or> \<not> (absolutePathname (URL_parse ext u) \<and> httpProtocol (URL_parse ext u))))
     \<and> ((\<exists>u. URL_parse_error ext u = Some e)
        \<or> e = AssertionError ''Check URL must have absolute pathname''
        \<or> e = AssertionError ''Check URL may only use HTTP/S protocol'')"
proof -
  obtain parsed where l: "list_all2 (\<lambda>line check. matchLine line = Some check) (checkLines content) parsed"
    and r: "readChecks ext (Inr content) =
      (case mapThrow (validCheck ext) parsed of
         Inl e \<Rightarrow> Inl e | Inr checks \<Rightarrow> Inr (foldl addCheck [] checks))"
    by (rule readChecks_cases)
  from assms r have "mapThrow (validCheck ext) parsed = Inl e"
    by (cases "mapThrow (validCheck ext) parsed") auto
  then obtain check where c: "check \<in> set parsed" and v: "validCheck ext check = Inl e"
    using mapThrow_Inl by blast
  from list_all2_set2 [OF l c] obtain line where "line \<in> set (checkLines content)"
    "matchLine line = Some check"
    by blast
  moreover obtain u x where ux: "check = (u, x)" by (cases check)
  ultimately have line: "line \<in> set (checkLines content)" "matchLine line = Some (u, x)"
    by simp_all
  have bad: "URL_parse_error ext u \<noteq> None
      \<or> \<not> (absolutePathname (URL_parse ext u) \<and> httpProtocol (URL_parse ext u))"
    using validCheck_Inl [OF v] ux by auto
  have which: "(\<exists>u. URL_parse_error ext u = Some e)
        \<or> e = AssertionError ''Check URL must have absolute pathname''
        \<or> e = AssertionError ''Check URL may only use HTTP/S protocol''"
    using validCheck_Inl [OF v] by auto
  from line bad have "\<exists>line \<in> set (checkLines content). \<exists>u x. matchLine line = Some (u, x)
            \<and> (URL_parse_error ext u \<noteq> None
               \<or> \<not> (absolutePathname (URL_parse ext u) \<and> httpProtocol (URL_parse ext u)))"
    by blast
  with which show ?thesis by (rule conjI [rotated])
qed

lemma readChecks_fails:
  assumes "line \<in> set (checkLines content)" and "matchLine line = Some (u, x)"
    and "URL_parse_error ext u \<noteq> None
      \<or> \<not> (absolutePathname (URL_parse ext u) \<and> httpProtocol (URL_parse ext u))"
  shows "\<exists>e. readChecks ext (Inr content) = Inl e"
proof -
  obtain parsed where l: "list_all2 (\<lambda>line check. matchLine line = Some check) (checkLines content) parsed"
    and r: "readChecks ext (Inr content) =
      (case mapThrow (validCheck ext) parsed of
         Inl e \<Rightarrow> Inl e | Inr checks \<Rightarrow> Inr (foldl addCheck [] checks))"
    by (rule readChecks_cases)
  from list_all2_set1 [OF l assms(1)] obtain check where "check \<in> set parsed"
    "matchLine line = Some check"
    by blast
  with assms(2) have mem: "(u, x) \<in> set parsed" by simp
  from assms(3) obtain e where "validCheck ext (u, x) = Inl e"
    by (cases "validCheck ext (u, x)") (auto simp: validCheck_Inr)
  with mem obtain e' where "mapThrow (validCheck ext) parsed = Inl e'"
    using mapThrow_fails [of "(u, x)" parsed "validCheck ext" e] by auto
  with r show ?thesis by simp
qed

lemma readChecks_Inr:
  assumes "readChecks ext (Inr content) = Inr registry"
  shows "(\<forall>key \<in> set (map fst registry). URL_parse_error ext key = None
            \<and> absolutePathname (URL_parse ext key) \<and> httpProtocol (URL_parse ext key))
     \<and> distinct (map fst registry)"
proof -
  obtain parsed where r: "readChecks ext (Inr content) =
      (case mapThrow (validCheck ext) parsed of
         Inl e \<Rightarrow> Inl e | Inr checks \<Rightarrow> Inr (foldl addCheck [] checks))"
    by (rule readChecks_cases)
  from assms r obtain checks where m: "mapThrow (validCheck ext) parsed = Inr checks"
    and reg: "registry = foldl addCheck [] checks"
    by (cases "mapThrow (validCheck ext) parsed") auto
  from m have v: "list_all2 (\<lambda>x y. validCheck ext x = Inr y) parsed checks"
    by (simp add: mapThrow_Inr)
  have "URL_parse_error ext (fst check) = None
      \<and> absolutePathname (URL_parse ext (fst check)) \<and> httpProtocol (URL_parse ext (fst check))"
    if "check \<in> set checks" for check
  proof -
    from list_all2_set2 [OF v that] obtain x where "validCheck ext x = Inr check" by blast
    then show ?thesis by (simp add: validCheck_Inr)
  qed
  then have valid: "\<forall>key \<in> fst ` set checks. URL_parse_error ext key = None
      \<and> absolutePathname (URL_parse ext key) \<and> httpProtocol (URL_parse ext key)"
    by simp
  have keys: "distinct (map fst registry)" "set (map fst registry) = fst ` set checks"
    using keys_foldl_addCheck [of "[]" checks] reg by simp_all
  show ?thesis
    using valid keys(1) unfolding keys(2) by (rule conjI)
qed

lemma splitLines_sample:
  "splitLines [] sampleChecks = [''# checks'', ''/loop'', ''timeout=5s'', ''  /login log in '', '''']"
  by (simp add: sampleChecks_def isNewline_def)

lemma trim_sample:
  "map trim [''# checks'', ''/loop'', ''timeout=5s'', ''  /login log in '', '''']
     = [''# checks'', ''/loop'', ''timeout=5s'', ''/login log in'', '''']"
  by (simp add: trim_def isSpace_def)

lemma isAssignment_sample:
  "isAssignment ''timeout=5s''" "\<not> isAssignment ''/loop''" "\<not> isAssignment ''/login log in''"
  "\<not> isAssignment ''status 200 OK''"
  by (simp_all add: isAssignment_def isWord_def)

lemma checkLines_sample: "checkLines sampleChecks = [''/loop'', ''/login log in'']"
proof -
  have "checkLines sampleChecks =
     filter (\<lambda>line. \<not> isAssignment line)
       (filter (\<lambda>line. (case line of [] \<Rightarrow> True | c # cs \<Rightarrow> c \<noteq> CHR ''#''))
          (filter (\<lambda>line. length line \<noteq> 0)
             [''# checks'', ''/loop'', ''timeout=5s'', ''/login log in'', '''']))"
    by (simp only: checkLines_def splitLines_sample trim_sample)
  also have "\<dots> = filter (\<lambda>line. \<not> isAssignment line) [''/loop'', ''timeout=5s'', ''/login log in'']"
    by simp
  also have "\<dots> = [''/loop'', ''/login log in'']"
    by (simp add: isAssignment_sample)
  finally show ?thesis .
qed


lemma splitLines_broken: "splitLines [] brokenChecks = [''/loop'', ''status 200 OK'']"
  by (simp add: brokenChecks_def isNewline_def)

lemma trim_broken: "map trim [''/loop'', ''status 200 OK''] = [''/loop'', ''status 200 OK'']"
  by (simp add: trim_def isSpace_def)

lemma checkLines_broken: "checkLines brokenChecks = [''/loop'', ''status 200 OK'']"
proof -
  have "checkLines brokenChecks =
     filter (\<lambda>line. \<not> isAssignment line)
       (filter (\<lambda>line. (case line of [] \<Rightarrow> True | c # cs \<Rightarrow> c \<noteq> CHR ''#''))
          (filter (\<lambda>line. length line \<noteq> 0) [''/loop'', ''status 200 OK'']))"
    by (simp only: checkLines_def splitLines_broken trim_broken)
  also have "\<dots> = filter (\<lambda>line. \<not> isAssignment line) [''/loop'', ''status 200 OK'']"
    by simp
  also have "\<dots> = [''/loop'', ''status 200 OK'']"
    by (simp add: isAssignment_sample)
  finally show ?thesis .
qed

lemma matchLine_sample:
  "matchLine ''/loop'' = Some (''/loop'', [])"
  "matchLine ''/login log in'' = Some (''/login'', ''log in'')"
  "matchLine ''status 200 OK'' = Some (''status'', ''200 OK'')"
  by (simp_all add: matchLine_def isSpace_def isNewline_def)

lemma validCheck_sample:
  "validCheck node (''/loop'', []) = Inr (''/loop'', [])"
  "validCheck node (''/login'', ''log in'') = Inr (''/login'', ''log in'')"
  "validCheck node (''status'', ''200 OK'')
     = Inl (AssertionError ''Check URL must have absolute pathname'')"
  by (simp_all add: validCheck_def absolutePathname_def httpProtocol_def node_def node_parse_def
      node_parse_error_def)

lemma readChecks_sample:
  "readChecks node (Inr sampleChecks) = Inr [(''/loop'', []), (''/login'', [''log in''])]"
proof -
  have "mapThrow toCheck (checkLines sampleChecks) = Inr [(''/loop'', []), (''/login'', ''log in'')]"
    by (simp add: checkLines_sample toCheck_def matchLine_sample)
  moreover have "mapThrow (validCheck node) [(''/loop'', []), (''/login'', ''log in'')]
      = Inr [(''/loop'', []), (''/login'', ''log in'')]"
    by (simp add: validCheck_sample)
  moreover have "foldl addCheck [] [(''/loop'', []), (''/login'', ''log in'')]
      = [(''/loop'', []), (''/login'', [''log in''])]"
    by (simp add: addCheck_def)
  ultimately show ?thesis by (simp add: readChecks_def)
qed

lemma readChecks_broken:
  "readChecks node (Inr brokenChecks)
     = Inl (AssertionError ''Check URL must have absolute pathname'')"
proof -
  have "mapThrow toCheck (checkLines brokenChecks) = Inr [(''/loop'', []), (''status'', ''200 OK'')]"
    by (simp add: checkLines_broken toCheck_def matchLine_sample)
  moreover have "mapThrow (validCheck node) [(''/loop'', []), (''status'', ''200 OK'')]
      = Inl (AssertionError ''Check URL must have absolute pathname'')"
    by (simp add: validCheck_sample)
  ultimately show ?thesis by (simp add: readChecks_def)
qed

text \<open>
  Claim C7, as amended. \<^const>\<open>readChecks\<close> fails exactly when the file cannot be read,
  or some check line has a URL on which \<^verbatim>\<open>URL.parse\<close> throws, or for which it gives
  no pathname beginning with a slash, or a protocol other than \<^verbatim>\<open>http:\<close> and
  \<^verbatim>\<open>https:\<close>; the failure is the exception of the reading, that of the parsing, or
  one of the two assertion errors. When it succeeds, every key of the registry parses
  and meets both conditions, the keys are distinct, and a run of \<^const>\<open>checkFunction\<close> on
  the registry neither throws an assertion error nor is rejected.
\<close>

theorem readChecks_fails_iff_invalid:
  "((\<exists>e. readChecks ext file = Inl e) \<longleftrightarrow>
      (\<exists>e. file = Inl e)
      \<or> (\<exists>content. file = Inr content
           \<and> (\<exists>line \<in> set (checkLines content). \<exists>u x. matchLine line = Some (u, x)
                \<and> (URL_parse_error ext u \<noteq> None
                   \<or> \<not> (absolutePathname (URL_parse ext u) \<and> httpProtocol (URL_parse ext u))))))
   \<and> (readChecks ext file = Inl e \<longrightarrow>
        file = Inl e \<or> (\<exists>u. URL_parse_error ext u = Some e)
        \<or> e = AssertionError ''Check URL must have absolute pathname''
        \<or> e = AssertionError ''Check URL may only use HTTP/S protocol'')
   \<and> (readChecks ext file = Inr registry \<longrightarrow>
        (\<forall>key \<in> set (map fst registry). URL_parse_error ext key = None
            \<and> absolutePathname (URL_parse ext key) \<and> httpProtocol (URL_parse ext key))
        \<and> distinct (map fst registry)
        \<and> (\<forall>m. checkFunction ext registry timeout url requestID env clock \<noteq> Threw (AssertionError m))
        \<and> (\<forall>e'. checkFunction ext registry timeout url requestID env clock \<noteq> Rejected e'))
   \<and> (absolutePathname p \<longleftrightarrow> (\<exists>rest. u_pathname p = Some (CHR ''/'' # rest)))
   \<and> (httpProtocol p \<longleftrightarrow> u_protocol p \<in> {None, Some [], Some ''http:'', Some ''https:''})"
proof (intro conjI impI allI)
  show "(\<exists>e. readChecks ext file = Inl e) \<longleftrightarrow>
      (\<exists>e. file = Inl e)
      \<or> (\<exists>content. file = Inr content
           \<and> (\<exists>line \<in> set (checkLines content). \<exists>u x. matchLine line = Some (u, x)
                \<and> (URL_parse_error ext u \<noteq> None
                   \<or> \<not> (absolutePathname (URL_parse ext u) \<and> httpProtocol (URL_parse ext u)))))"
  proof (cases "file")
    case (Inl e)
    then show ?thesis by (simp add: readChecks_def)
  next
    case (Inr content)
    have "(\<exists>e. readChecks ext (Inr content) = Inl e) \<longleftrightarrow>
        (\<exists>line \<in> set (checkLines content). \<exists>u x. matchLine line = Some (u, x)
            \<and> (URL_parse_error ext u \<noteq> None
               \<or> \<not> (absolutePathname (URL_parse ext u) \<and> httpProtocol (URL_parse ext u))))"
    proof
      assume "\<exists>e. readChecks ext (Inr content) = Inl e"
      then obtain e where "readChecks ext (Inr content) = Inl e" ..
      from readChecks_Inl [OF this]
      show "\<exists>line \<in> set (checkLines content). \<exists>u x. matchLine line = Some (u, x)
            \<and> (URL_parse_error ext u \<noteq> None
               \<or> \<not> (absolutePathname (URL_parse ext u) \<and> httpProtocol (URL_parse ext u)))" ..
    next
      assume "\<exists>line \<in> set (checkLines content). \<exists>u x. matchLine line = Some (u, x)
            \<and> (URL_parse_error ext u \<noteq> None
               \<or> \<not> (absolutePathname (URL_parse ext u) \<and> httpProtocol (URL_parse ext u)))"
      then obtain line u x where "line \<in> set (checkLines content)" "matchLine line = Some (u, x)"
        "URL_parse_error ext u \<noteq> None
          \<or> \<not> (absolutePathname (URL_parse ext u) \<and> httpProtocol (URL_parse ext u))"
        by blast
      then show "\<exists>e. readChecks ext (Inr content) = Inl e" by (rule readChecks_fails)
    qed
    with Inr show ?thesis by simp
  qed
next
  assume a: "readChecks ext file = Inl e"
  show "file = Inl e \<or> (\<exists>u. URL_parse_error ext u = Some e)
        \<or> e = AssertionError ''Check URL must have absolute pathname''
        \<or> e = AssertionError ''Check URL may only use HTTP/S protocol''"
  proof (cases "file")
    case (Inl e')
    with a show ?thesis by (simp add: readChecks_def)
  next
    case (Inr content)
    with a have "readChecks ext (Inr content) = Inl e" by simp
    from readChecks_Inl [OF this] show ?thesis by blast
  qed
next
  assume r: "readChecks ext file = Inr registry"
  then obtain content where "file = Inr content"
    by (cases "file") (simp_all add: readChecks_def)
  with r have r': "readChecks ext (Inr content) = Inr registry" by simp
  show "\<forall>key \<in> set (map fst registry). URL_parse_error ext key = None
            \<and> absolutePathname (URL_parse ext key) \<and> httpProtocol (URL_parse ext key)"
    using readChecks_Inr [OF r'] ..
  show "distinct (map fst registry)"
    using readChecks_Inr [OF r'] ..
next
  fix m
  show "checkFunction ext registry timeout url requestID env clock \<noteq> Threw (AssertionError m)"
    using checkFunction_Threw [of ext registry timeout url requestID env clock "AssertionError m"]
    by auto
next
  fix e'
  show "checkFunction ext registry timeout url requestID env clock \<noteq> Rejected e'"
    by (rule checkFunction_not_Rejected)
next
  show "absolutePathname p \<longleftrightarrow> (\<exists>rest. u_pathname p = Some (CHR ''/'' # rest))"
    by (rule absolutePathname_iff)
  show "httpProtocol p \<longleftrightarrow> u_protocol p \<in> {None, Some [], Some ''http:'', Some ''https:''}"
    by (rule httpProtocol_iff)
qed

theorem readChecks_fails_iff_invalid_witness:
  "readChecks node (Inr sampleChecks) = Inr [(''/loop'', []), (''/login'', [''log in''])]
   \<and> checkLines sampleChecks = [''/loop'', ''/login log in'']
   \<and> URL_parse_error node ''/loop'' = None
   \<and> absolutePathname (URL_parse node ''/loop'') \<and> httpProtocol (URL_parse node ''/loop'')
   \<and> URL_parse_error node ''/login'' = None
   \<and> absolutePathname (URL_parse node ''/login'') \<and> httpProtocol (URL_parse node ''/login'')
   \<and> readChecks node (Inr brokenChecks)
       = Inl (AssertionError ''Check URL must have absolute pathname'')
   \<and> checkLines brokenChecks = [''/loop'', ''status 200 OK'']
   \<and> matchLine ''status 200 OK'' = Some (''status'', ''200 OK'')
   \<and> \<not> absolutePathname (URL_parse node ''status'')
   \<and> readChecks node (Inl noSuchFile) = Inl noSuchFile
   \<and> checkFunction node [(''/loop'', []), (''/login'', [''log in''])] 3000 ''http://127.0.0.1:5000''
        None sampleEnv sampleClock = Resolved ([loginOutcome], [loopOutcome])"
proof -
  have 1: "\<not> absolutePathname (URL_parse node ''status'')"
    by (simp add: absolutePathname_def node_def node_parse_def)
  have 2: "readChecks node (Inl noSuchFile) = Inl noSuchFile"
    by (simp add: readChecks_def)
  have 3: "URL_parse_error node ''/loop'' = None" "URL_parse_error node ''/login'' = None"
    by (simp_all add: node_def node_parse_error_def)
  show ?thesis
    using readChecks_fails_iff_invalid [of node "Inr sampleChecks"
        "AssertionError ''Check URL must have absolute pathname''"
        "[(''/loop'', []), (''/login'', [''log in''])]" 3000 "''http://127.0.0.1:5000''" None
        sampleEnv sampleClock "URL_parse node ''/loop''"]
      readChecks_fails_iff_invalid [of node "Inr brokenChecks"
        "AssertionError ''Check URL must have absolute pathname''"
        "[(''/loop'', []), (''/login'', [''log in''])]" 3000 "''http://127.0.0.1:5000''" None
        sampleEnv sampleClock "URL_parse node ''/loop''"]
      1 2 3 readChecks_sample readChecks_broken checkLines_sample checkLines_broken
      checkFunction_sample
    by (simp add: matchLine_sample)
qed

text \<open>The claim as it was stated fails for a checks file that cannot be read: loading
  fails with the exception of the reading, which is neither of the two assertion
  errors, and there is no check line.\<close>

theorem readChecks_counterexample:
  "readChecks node (Inl noSuchFile) = Inl noSuchFile
   \<and> noSuchFile \<noteq> AssertionError ''Check URL must have absolute pathname''
   \<and> noSuchFile \<noteq> AssertionError ''Check URL may only use HTTP/S protocol''"
  by (simp add: readChecks_def noSuchFile_def)

end
